theory Spec2Isabelle
  imports Main "HOL-Library.Multiset"
begin

section \<open>Data model of the task dashboard (src/App.tsx)\<close>

text \<open>
  The \<^verbatim>\<open>Task\<close> interface: \<^verbatim>\<open>priority\<close> is the union of three string literals,
  the other three fields are strings. The field \<^verbatim>\<open>id\<close> is called \<open>id_task\<close> here,
  since \<open>id\<close> is the identity function of HOL.
\<close>

datatype priority = Low | Medium | High

record task =
  id_task :: string
  name :: string
  priority :: priority
  dueDate :: string

text \<open>
  The state of the \<^verbatim>\<open>App\<close> component: one field for each \<^verbatim>\<open>useState\<close> cell.
  The form cells \<^verbatim>\<open>priority\<close> and \<^verbatim>\<open>dueDate\<close> carry the suffix \<open>_st\<close>, the
  plain names being the fields of a task. \<^verbatim>\<open>editingTask\<close> is \<^verbatim>\<open>Task | null\<close>.
\<close>

record app =
  tasks :: "task list"
  taskName :: string
  priority_st :: priority
  dueDate_st :: string
  editingTask :: "task option"

section \<open>Identifiers: \<^verbatim>\<open>Date.now().toString()\<close>\<close>

text \<open>
  \<^verbatim>\<open>Date.now()\<close> is an integer number of milliseconds (at most 8.64e15 in absolute
  value, so its \<^verbatim>\<open>toString()\<close> is the plain decimal numeral, with a minus sign
  before a negative one). The clock reading is an input of the model; \<open>digit_char\<close>
  is the character of a digit below ten.
\<close>

definition digit_char :: "nat \<Rightarrow> char" where
  "digit_char d = ''0123456789'' ! d"

fun digits :: "nat \<Rightarrow> string" where
  "digits n = (if n < 10 then [digit_char n] else digits (n div 10) @ [digit_char (n mod 10)])"

declare digits.simps [simp del]

definition toString :: "int \<Rightarrow> string" where
  "toString i = (if i < 0 then CHR ''-'' # digits (nat (- i)) else digits (nat i))"

text \<open>Reading a digit string back as a number (used to show that the rendering is injective).\<close>

definition digits_value :: "string \<Rightarrow> nat" where
  "digits_value cs = foldl (\<lambda>a c. 10 * a + ((of_char c :: nat) - 48)) 0 cs"

section \<open>The event handlers\<close>

text \<open>\<^verbatim>\<open>resetForm\<close>: the four setters, with their constant arguments.\<close>

definition resetForm :: "app \<Rightarrow> app" where
  "resetForm s = s\<lparr>taskName := '''', priority_st := Medium, dueDate_st := '''', editingTask := None\<rparr>"

text \<open>
  The task built by \<^verbatim>\<open>addOrUpdateTask\<close>: the id of the task being edited when there
  is one, the clock reading otherwise; the other fields from the form.
\<close>

definition newTask :: "int \<Rightarrow> app \<Rightarrow> task" where
  "newTask now s =
     \<lparr>id_task = (case editingTask s of Some e \<Rightarrow> id_task e | None \<Rightarrow> toString now),
      name = taskName s,
      priority = priority_st s,
      dueDate = dueDate_st s\<rparr>"

text \<open>
  \<^verbatim>\<open>addOrUpdateTask\<close>. A string is falsy exactly when it is empty, so the guard
  \<^verbatim>\<open>!taskName || !dueDate\<close> returns early on an empty name or an empty date. The
  updater passed to \<^verbatim>\<open>setTasks\<close> maps over the list when a task is being edited and
  appends otherwise; then the form is reset. \<open>now\<close> is the reading of the clock.
\<close>

definition addOrUpdateTask :: "int \<Rightarrow> app \<Rightarrow> app" where
  "addOrUpdateTask now s =
     (if taskName s = [] \<or> dueDate_st s = [] then s
      else
        let nt = newTask now s in
        resetForm (s\<lparr>tasks :=
          (case editingTask s of
             Some e \<Rightarrow> map (\<lambda>t. if id_task t = id_task e then nt else t) (tasks s)
           | None \<Rightarrow> tasks s @ [nt])\<rparr>))"

text \<open>\<^verbatim>\<open>deleteTask\<close>: keeps the tasks whose id differs; touches no other cell.\<close>

definition deleteTask :: "string \<Rightarrow> app \<Rightarrow> app" where
  "deleteTask i s = s\<lparr>tasks := filter (\<lambda>t. id_task t \<noteq> i) (tasks s)\<rparr>"

text \<open>\<^verbatim>\<open>editTask\<close>: remembers the task and copies its fields into the form.\<close>

definition editTask :: "task \<Rightarrow> app \<Rightarrow> app" where
  "editTask t s =
     s\<lparr>editingTask := Some t, taskName := name t, priority_st := priority t, dueDate_st := dueDate t\<rparr>"

section \<open>The grouped view\<close>

text \<open>
  \<^verbatim>\<open>groupedTasks\<close> is a \<^verbatim>\<open>reduce\<close> from the empty object: the callback creates the
  bucket of the task's priority when the object has none (an array, even an empty one,
  is truthy, so \<^verbatim>\<open>!acc[p]\<close> holds exactly when the key is missing) and pushes the
  task on it. The object is a map from priorities to buckets.
\<close>

definition group_step :: "(priority \<rightharpoonup> task list) \<Rightarrow> task \<Rightarrow> (priority \<rightharpoonup> task list)" where
  "group_step acc t =
     (let acc1 = (case acc (priority t) of None \<Rightarrow> acc(priority t \<mapsto> []) | Some b \<Rightarrow> acc)
      in case acc1 (priority t) of
           Some b \<Rightarrow> acc1(priority t \<mapsto> b @ [t])
         | None \<Rightarrow> acc1)"

definition groupedTasks :: "task list \<Rightarrow> (priority \<rightharpoonup> task list)" where
  "groupedTasks ts = foldl group_step Map.empty ts"

definition priorityOrder :: "priority list" where
  "priorityOrder = [High, Medium, Low]"

text \<open>
  The task list of the page: \<^verbatim>\<open>priorityOrder.map\<close> renders, for each level in turn,
  a heading and the cards of \<^verbatim>\<open>groupedTasks[level]\<close> when that bucket exists, and
  nothing otherwise. The projection is the list of the rendered sections, each a
  level with its tasks. The placeholder text is rendered when \<^verbatim>\<open>!tasks.length\<close>.
\<close>

definition sections :: "task list \<Rightarrow> (priority \<times> task list) list" where
  "sections ts =
     concat (map (\<lambda>level. case groupedTasks ts level of Some b \<Rightarrow> [(level, b)] | None \<Rightarrow> [])
       priorityOrder)"

definition emptyState :: "task list \<Rightarrow> bool" where
  "emptyState ts = (length ts = 0)"

text \<open>
  Each card of a section shows \<^verbatim>\<open>format(new Date(task.dueDate), "PP")\<close>, and
  \<^verbatim>\<open>format\<close> throws a \<^verbatim>\<open>RangeError\<close> when the date is not valid. Whether
  \<^verbatim>\<open>new Date(text)\<close> is a valid date is decided by the engine (for texts outside
  the standard format in a way the standard leaves open), so it is a parameter,
  \<open>valid_date\<close>. The page renders when no card throws.
\<close>

definition TaskCard :: "(string \<Rightarrow> bool) \<Rightarrow> task \<Rightarrow> bool" where
  "TaskCard valid_date t = valid_date (dueDate t)"

definition renders :: "(string \<Rightarrow> bool) \<Rightarrow> task list \<Rightarrow> bool" where
  "renders valid_date ts = list_all (TaskCard valid_date) (concat (map snd (sections ts)))"

section \<open>The platform: \<^verbatim>\<open>JSON.parse\<close> and \<^verbatim>\<open>JSON.stringify\<close>\<close>

text \<open>
  The source calls the two JSON functions of the platform; they are modelled here from
  the JSON grammar (ECMA-404), on texts of 8-bit code units. A number keeps the text of
  its numeral. An object keeps its members in the order of the text. An escape \<^verbatim>\<open>\uXXXX\<close> above
  \<^verbatim>\<open>00FF\<close> denotes a code unit that a \<open>char\<close> cannot hold: \<open>Unrepresentable\<close>
  says so, and is not an error of the platform. The errors of the platform are the
  \<^verbatim>\<open>SyntaxError\<close> of \<^verbatim>\<open>JSON.parse\<close> and the \<^verbatim>\<open>RangeError\<close> of \<^verbatim>\<open>format\<close>.
\<close>

datatype json = JNull | JBool bool | JNumber string | JString string
  | JArray "json list" | JObject "(string \<times> json) list"

datatype error = SyntaxError | RangeError | Unrepresentable

datatype token = LBrace | RBrace | LBracket | RBracket | Colon | Comma
  | TString string | TNumber string | TTrue | TFalse | TNull

definition is_ws :: "char \<Rightarrow> bool" where
  "is_ws c = (c = CHR 0x20 \<or> c = CHR 0x09 \<or> c = CHR 0x0A \<or> c = CHR 0x0D)"

definition is_digit :: "char \<Rightarrow> bool" where
  "is_digit c = (48 \<le> (of_char c :: nat) \<and> (of_char c :: nat) \<le> 57)"

definition hex_val :: "char \<Rightarrow> nat option" where
  "hex_val c =
     (let n = (of_char c :: nat) in
      if 48 \<le> n \<and> n \<le> 57 then Some (n - 48)
      else if 65 \<le> n \<and> n \<le> 70 then Some (n - 55)
      else if 97 \<le> n \<and> n \<le> 102 then Some (n - 87)
      else None)"

definition hex4 :: "char \<Rightarrow> char \<Rightarrow> char \<Rightarrow> char \<Rightarrow> nat option" where
  "hex4 a b c d =
     (case (hex_val a, hex_val b, hex_val c, hex_val d) of
        (Some w, Some x, Some y, Some z) \<Rightarrow> Some (((w * 16 + x) * 16 + y) * 16 + z)
      | _ \<Rightarrow> None)"

text \<open>The character after a backslash, other than \<^verbatim>\<open>u\<close>.\<close>

definition unescape :: "char \<Rightarrow> char option" where
  "unescape e =
     (if e = CHR 0x22 \<or> e = CHR 0x5C \<or> e = CHR ''/'' then Some e
      else if e = CHR ''b'' then Some (CHR 0x08)
      else if e = CHR ''f'' then Some (CHR 0x0C)
      else if e = CHR ''n'' then Some (CHR 0x0A)
      else if e = CHR ''r'' then Some (CHR 0x0D)
      else if e = CHR ''t'' then Some (CHR 0x09)
      else None)"

text \<open>
  The body of a string, after its opening quote: the decoded characters (collected in
  reverse in \<open>acc\<close>) and the text after the closing quote. A control character must
  be escaped.
\<close>

fun lex_string :: "string \<Rightarrow> string \<Rightarrow> error + (string \<times> string)" where
  "lex_string acc [] = Inl SyntaxError"
| "lex_string acc (c # cs) =
     (if c = CHR 0x22 then Inr (rev acc, cs)
      else if (of_char c :: nat) < 32 then Inl SyntaxError
      else if c \<noteq> CHR 0x5C then lex_string (c # acc) cs
      else
        (case cs of
           [] \<Rightarrow> Inl SyntaxError
         | e # es \<Rightarrow>
             if e = CHR ''u'' then
               (case es of
                  h1 # h2 # h3 # h4 # rest \<Rightarrow>
                    (case hex4 h1 h2 h3 h4 of
                       None \<Rightarrow> Inl SyntaxError
                     | Some n \<Rightarrow>
                         if n < 256 then lex_string (char_of n # acc) rest
                         else Inl Unrepresentable)
                | _ \<Rightarrow> Inl SyntaxError)
             else
               (case unescape e of
                  None \<Rightarrow> Inl SyntaxError
                | Some d \<Rightarrow> lex_string (d # acc) es)))"

text \<open>
  A numeral: an optional minus, \<^verbatim>\<open>0\<close> or a digit string without leading zero, an
  optional fraction and an optional exponent, each with at least one digit.
\<close>

definition lex_frac :: "string \<Rightarrow> error + (string \<times> string)" where
  "lex_frac cs =
     (case cs of
        [] \<Rightarrow> Inr ([], cs)
      | c # r \<Rightarrow>
          if c = CHR ''.'' then
            (if takeWhile is_digit r = [] then Inl SyntaxError
             else Inr (c # takeWhile is_digit r, dropWhile is_digit r))
          else Inr ([], cs))"

definition lex_exp_sign :: "string \<Rightarrow> string \<times> string" where
  "lex_exp_sign cs =
     (case cs of
        [] \<Rightarrow> ([], cs)
      | c # r \<Rightarrow> if c = CHR ''+'' \<or> c = CHR ''-'' then ([c], r) else ([], cs))"

definition lex_exp :: "string \<Rightarrow> error + (string \<times> string)" where
  "lex_exp cs =
     (case cs of
        [] \<Rightarrow> Inr ([], cs)
      | c # r \<Rightarrow>
          if c = CHR ''e'' \<or> c = CHR ''E'' then
            (if takeWhile is_digit (snd (lex_exp_sign r)) = [] then Inl SyntaxError
             else Inr (c # fst (lex_exp_sign r) @ takeWhile is_digit (snd (lex_exp_sign r)),
                       dropWhile is_digit (snd (lex_exp_sign r))))
          else Inr ([], cs))"

definition lex_sign :: "string \<Rightarrow> string \<times> string" where
  "lex_sign cs =
     (case cs of
        [] \<Rightarrow> ([], cs)
      | c # r \<Rightarrow> if c = CHR ''-'' then ([c], r) else ([], cs))"

definition lex_int :: "string \<Rightarrow> error + (string \<times> string)" where
  "lex_int cs =
     (case cs of
        [] \<Rightarrow> Inl SyntaxError
      | d # r \<Rightarrow>
          if \<not> is_digit d then Inl SyntaxError
          else if d = CHR ''0'' then Inr ([d], r)
          else Inr (d # takeWhile is_digit r, dropWhile is_digit r))"

definition lex_number :: "string \<Rightarrow> error + (string \<times> string)" where
  "lex_number cs =
     (case lex_int (snd (lex_sign cs)) of
        Inl e \<Rightarrow> Inl e
      | Inr (ip, r2) \<Rightarrow>
          (case lex_frac r2 of
             Inl e \<Rightarrow> Inl e
           | Inr (fp, r3) \<Rightarrow>
               (case lex_exp r3 of
                  Inl e \<Rightarrow> Inl e
                | Inr (ep, r4) \<Rightarrow> Inr (fst (lex_sign cs) @ ip @ fp @ ep, r4))))"

definition punct :: "char \<Rightarrow> token option" where
  "punct c =
     (if c = CHR ''{'' then Some LBrace
      else if c = CHR ''}'' then Some RBrace
      else if c = CHR ''['' then Some LBracket
      else if c = CHR '']'' then Some RBracket
      else if c = CHR '':'' then Some Colon
      else if c = CHR '','' then Some Comma
      else None)"

lemma lex_string_shorter:
  "lex_string acc cs = Inr (s, rest) \<Longrightarrow> length rest < length cs"
proof (induction acc cs rule: lex_string.induct)
  case (1 acc)
  then show ?case by simp
next
  case (2 acc c cs)
  show ?case
  proof (cases "c = CHR 0x22 \<or> (of_char c :: nat) < 32 \<or> c \<noteq> CHR 0x5C")
    case True
    with 2 show ?thesis by (auto split: if_splits)
  next
    case False
    then have c: "c \<noteq> CHR 0x22" "\<not> (of_char c :: nat) < 32" "\<not> c \<noteq> CHR 0x5C"
      by simp_all
    show ?thesis
    proof (cases cs)
      case Nil
      with 2(4) c show ?thesis by simp
    next
      case (Cons e es)
      show ?thesis
      proof (cases "e = CHR ''u''")
        case False
        with 2(3) 2(4) c Cons show ?thesis
          by (fastforce split: option.splits)
      next
        case True
        with 2(4) c Cons obtain h1 h2 h3 h4 r n where
          es: "es = h1 # h2 # h3 # h4 # r" and h: "hex4 h1 h2 h3 h4 = Some n" and n: "n < 256"
          and l: "lex_string (char_of n # acc) r = Inr (s, rest)"
          by (auto split: list.splits option.splits if_splits)
        have "length rest < length r"
          by (rule 2(2) [OF c Cons True es refl refl refl h n l])
        with es Cons show ?thesis
          by simp
      qed
    qed
  qed
qed

lemma lex_frac_shorter: "lex_frac cs = Inr (s, rest) \<Longrightarrow> length rest \<le> length cs"
  by (auto simp: lex_frac_def split: list.splits if_splits
      intro: le_SucI length_dropWhile_le)

lemma lex_exp_sign_shorter: "length (snd (lex_exp_sign cs)) \<le> length cs"
  by (simp add: lex_exp_sign_def split: list.splits)

lemma lex_exp_shorter:
  assumes "lex_exp cs = Inr (s, rest)"
  shows "length rest \<le> length cs"
proof (cases cs)
  case Nil
  with assms show ?thesis by (simp add: lex_exp_def)
next
  case (Cons c r)
  have "length (dropWhile is_digit (snd (lex_exp_sign r))) \<le> length r"
    using length_dropWhile_le [of is_digit "snd (lex_exp_sign r)"] lex_exp_sign_shorter [of r]
    by simp
  with assms Cons show ?thesis
    by (auto simp: lex_exp_def split: if_splits)
qed

lemma lex_sign_shorter: "length (snd (lex_sign cs)) \<le> length cs"
  by (simp add: lex_sign_def split: list.splits)

lemma lex_int_shorter: "lex_int cs = Inr (s, rest) \<Longrightarrow> length rest < length cs"
  by (auto simp: lex_int_def less_Suc_eq_le split: list.splits if_splits
      intro: length_dropWhile_le)

lemma lex_number_shorter:
  assumes "lex_number cs = Inr (s, rest)"
  shows "length rest < length cs"
proof -
  from assms obtain ip r2 fp r3 ep where
    i: "lex_int (snd (lex_sign cs)) = Inr (ip, r2)" and
    f: "lex_frac r2 = Inr (fp, r3)" and e: "lex_exp r3 = Inr (ep, rest)"
    by (auto simp: lex_number_def split: sum.splits)
  from lex_int_shorter [OF i] lex_frac_shorter [OF f] lex_exp_shorter [OF e]
    lex_sign_shorter [of cs]
  show ?thesis by simp
qed

text \<open>
  The tokens of a text. White space is skipped between tokens; a literal name, a string
  or a numeral that does not follow the grammar is a syntax error.
\<close>

function lex :: "string \<Rightarrow> error + token list" where
  "lex [] = Inr []"
| "lex (c # cs) =
     (if is_ws c then lex cs
      else
        (case punct c of
           Some t \<Rightarrow> map_sum id (Cons t) (lex cs)
         | None \<Rightarrow>
             if c = CHR 0x22 then
               (case lex_string [] cs of
                  Inl e \<Rightarrow> Inl e
                | Inr (s, rest) \<Rightarrow> map_sum id (Cons (TString s)) (lex rest))
             else if c = CHR ''-'' \<or> is_digit c then
               (case lex_number (c # cs) of
                  Inl e \<Rightarrow> Inl e
                | Inr (n, rest) \<Rightarrow> map_sum id (Cons (TNumber n)) (lex rest))
             else if take 4 (c # cs) = ''true'' then map_sum id (Cons TTrue) (lex (drop 3 cs))
             else if take 5 (c # cs) = ''false'' then map_sum id (Cons TFalse) (lex (drop 4 cs))
             else if take 4 (c # cs) = ''null'' then map_sum id (Cons TNull) (lex (drop 3 cs))
             else Inl SyntaxError))"
  by pat_completeness auto
termination
  by (relation "measure length")
    (auto dest!: lex_string_shorter lex_number_shorter)

text \<open>
  The parser reads the tokens from left to right with a stack of the arrays and objects
  that are still open (an object that has read a key holds it in a frame of its own),
  and a mode saying what may come next.
\<close>

datatype frame = FArray "json list" | FObject "(string \<times> json) list" | FKey string

datatype mode = MValue | MValueOrEnd | MKeyOrEnd | MKey | MColon | MCommaOrEnd | MDone json

definition value_done :: "json \<Rightarrow> frame list \<Rightarrow> (mode \<times> frame list) option" where
  "value_done v st =
     (case st of
        [] \<Rightarrow> Some (MDone v, [])
      | FArray xs # fs \<Rightarrow> Some (MCommaOrEnd, FArray (xs @ [v]) # fs)
      | FKey k # FObject kvs # fs \<Rightarrow> Some (MCommaOrEnd, FObject (kvs @ [(k, v)]) # fs)
      | _ \<Rightarrow> None)"

definition close_array :: "frame list \<Rightarrow> (mode \<times> frame list) option" where
  "close_array st = (case st of FArray xs # fs \<Rightarrow> value_done (JArray xs) fs | _ \<Rightarrow> None)"

definition close_object :: "frame list \<Rightarrow> (mode \<times> frame list) option" where
  "close_object st = (case st of FObject kvs # fs \<Rightarrow> value_done (JObject kvs) fs | _ \<Rightarrow> None)"

definition start_value :: "frame list \<Rightarrow> token \<Rightarrow> (mode \<times> frame list) option" where
  "start_value st t =
     (case t of
        LBracket \<Rightarrow> Some (MValueOrEnd, FArray [] # st)
      | LBrace \<Rightarrow> Some (MKeyOrEnd, FObject [] # st)
      | TString s \<Rightarrow> value_done (JString s) st
      | TNumber n \<Rightarrow> value_done (JNumber n) st
      | TTrue \<Rightarrow> value_done (JBool True) st
      | TFalse \<Rightarrow> value_done (JBool False) st
      | TNull \<Rightarrow> value_done JNull st
      | _ \<Rightarrow> None)"

definition start_key :: "frame list \<Rightarrow> token \<Rightarrow> (mode \<times> frame list) option" where
  "start_key st t = (case t of TString k \<Rightarrow> Some (MColon, FKey k # st) | _ \<Rightarrow> None)"

definition step :: "mode \<Rightarrow> frame list \<Rightarrow> token \<Rightarrow> (mode \<times> frame list) option" where
  "step m st t =
     (case m of
        MValue \<Rightarrow> start_value st t
      | MValueOrEnd \<Rightarrow> if t = RBracket then close_array st else start_value st t
      | MKeyOrEnd \<Rightarrow> if t = RBrace then close_object st else start_key st t
      | MKey \<Rightarrow> start_key st t
      | MColon \<Rightarrow> if t = Colon then Some (MValue, st) else None
      | MCommaOrEnd \<Rightarrow>
          (case t of
             Comma \<Rightarrow>
               (case st of
                  FArray xs # fs \<Rightarrow> Some (MValue, st)
                | FObject kvs # fs \<Rightarrow> Some (MKey, st)
                | _ \<Rightarrow> None)
           | RBracket \<Rightarrow> close_array st
           | RBrace \<Rightarrow> close_object st
           | _ \<Rightarrow> None)
      | MDone v \<Rightarrow> None)"

fun parse_tokens :: "mode \<Rightarrow> frame list \<Rightarrow> token list \<Rightarrow> error + json" where
  "parse_tokens m st [] = (case m of MDone v \<Rightarrow> Inr v | _ \<Rightarrow> Inl SyntaxError)"
| "parse_tokens m st (t # ts) =
     (case step m st t of
        None \<Rightarrow> Inl SyntaxError
      | Some (m', st') \<Rightarrow> parse_tokens m' st' ts)"

text \<open>\<^verbatim>\<open>JSON.parse(text)\<close>: the value of the text, or the error it throws.\<close>

definition JSON_parse :: "string \<Rightarrow> error + json" where
  "JSON_parse s = (case lex s of Inl e \<Rightarrow> Inl e | Inr ts \<Rightarrow> parse_tokens MValue [] ts)"

text \<open>
  \<^verbatim>\<open>JSON.stringify\<close> on an array of tasks: each task is an object with the four
  properties in the order in which \<^verbatim>\<open>addOrUpdateTask\<close> writes them, each string is
  quoted, with the quote, the backslash and the control characters escaped.
  \<open>hex_digit\<close> is the character of a hexadecimal digit.
\<close>

definition hex_digit :: "nat \<Rightarrow> char" where
  "hex_digit n = ''0123456789abcdef'' ! n"

definition quote_char :: "char \<Rightarrow> string" where
  "quote_char c =
     (if c = CHR 0x22 \<or> c = CHR 0x5C then [CHR 0x5C, c]
      else if c = CHR 0x08 then [CHR 0x5C, CHR ''b'']
      else if c = CHR 0x0C then [CHR 0x5C, CHR ''f'']
      else if c = CHR 0x0A then [CHR 0x5C, CHR ''n'']
      else if c = CHR 0x0D then [CHR 0x5C, CHR ''r'']
      else if c = CHR 0x09 then [CHR 0x5C, CHR ''t'']
      else if (of_char c :: nat) < 32 then
        [CHR 0x5C, CHR ''u'', CHR ''0'', CHR ''0'',
         hex_digit ((of_char c :: nat) div 16), hex_digit ((of_char c :: nat) mod 16)]
      else [c])"

definition quote :: "string \<Rightarrow> string" where
  "quote s = CHR 0x22 # concat (map quote_char s) @ [CHR 0x22]"

fun priority_name :: "priority \<Rightarrow> string" where
  "priority_name Low = ''Low''"
| "priority_name Medium = ''Medium''"
| "priority_name High = ''High''"

definition stringify_task :: "task \<Rightarrow> string" where
  "stringify_task t =
     ''{'' @ quote ''id'' @ '':'' @ quote (id_task t) @ '','' @
     quote ''name'' @ '':'' @ quote (name t) @ '','' @
     quote ''priority'' @ '':'' @ quote (priority_name (priority t)) @ '','' @
     quote ''dueDate'' @ '':'' @ quote (dueDate t) @ ''}''"

fun join_comma :: "string list \<Rightarrow> string" where
  "join_comma [] = []"
| "join_comma [x] = x"
| "join_comma (x # y # ys) = x @ '','' @ join_comma (y # ys)"

definition JSON_stringify :: "task list \<Rightarrow> string" where
  "JSON_stringify ts = ''['' @ join_comma (map stringify_task ts) @ '']''"

text \<open>
  The source gives the parsed value the type \<^verbatim>\<open>Task[]\<close> without looking at it.
  \<open>as_tasks\<close> reads a JSON value as a list of task records where the records say
  all there is to say: an array of objects that have exactly the properties \<^verbatim>\<open>id\<close>,
  \<^verbatim>\<open>name\<close>, \<^verbatim>\<open>priority\<close> and \<^verbatim>\<open>dueDate\<close>, in this order, all strings, the
  priority one of the three names. These are the objects that \<^verbatim>\<open>addOrUpdateTask\<close>
  builds, and \<^verbatim>\<open>JSON.stringify\<close> writes them as \<open>stringify_task\<close> does. It is
  \<open>None\<close> on any other value: one that is not of the type, or an object with the
  properties in another order or with further properties, which the record would not
  write back as the source does.
\<close>

definition as_priority :: "string \<Rightarrow> priority option" where
  "as_priority s =
     (if s = ''Low'' then Some Low
      else if s = ''Medium'' then Some Medium
      else if s = ''High'' then Some High
      else None)"

definition as_task :: "json \<Rightarrow> task option" where
  "as_task v =
     (case v of
        JObject [(k1, JString i), (k2, JString n), (k3, JString p), (k4, JString d)] \<Rightarrow>
          if k1 = ''id'' \<and> k2 = ''name'' \<and> k3 = ''priority'' \<and> k4 = ''dueDate'' then
            (case as_priority p of
               None \<Rightarrow> None
             | Some pr \<Rightarrow> Some \<lparr>id_task = i, name = n, priority = pr, dueDate = d\<rparr>)
          else None
      | _ \<Rightarrow> None)"

definition as_tasks :: "json \<Rightarrow> task list option" where
  "as_tasks v = (case v of JArray vs \<Rightarrow> those (map as_task vs) | _ \<Rightarrow> None)"

text \<open>
  The tokens and the value of the serialisation of a task list (for the round trip
  through the storage).
\<close>

definition task_tokens :: "task \<Rightarrow> token list" where
  "task_tokens t =
     [LBrace, TString ''id'', Colon, TString (id_task t), Comma,
      TString ''name'', Colon, TString (name t), Comma,
      TString ''priority'', Colon, TString (priority_name (priority t)), Comma,
      TString ''dueDate'', Colon, TString (dueDate t), RBrace]"

fun elems_tokens :: "task list \<Rightarrow> token list" where
  "elems_tokens [] = []"
| "elems_tokens [t] = task_tokens t"
| "elems_tokens (t # u # us) = task_tokens t @ Comma # elems_tokens (u # us)"

definition task_json :: "task \<Rightarrow> json" where
  "task_json t =
     JObject [(''id'', JString (id_task t)), (''name'', JString (name t)),
       (''priority'', JString (priority_name (priority t))), (''dueDate'', JString (dueDate t))]"

section \<open>Local storage, loading and saving\<close>

text \<open>\<^verbatim>\<open>localStorage\<close>: a map from keys to texts.\<close>

type_synonym storage = "string \<rightharpoonup> string"

text \<open>
  The initialiser of the \<^verbatim>\<open>tasks\<close> cell: \<^verbatim>\<open>getItem\<close> gives \<^verbatim>\<open>null\<close> for a missing key;
  \<^verbatim>\<open>null\<close> and the empty text are falsy and give the empty array; any other text goes
  to \<^verbatim>\<open>JSON.parse\<close>, whose error nothing catches.
\<close>

definition load :: "storage \<Rightarrow> error + json" where
  "load st =
     (case st ''tasks'' of
        None \<Rightarrow> Inr (JArray [])
      | Some savedTasks \<Rightarrow> if savedTasks = [] then Inr (JArray []) else JSON_parse savedTasks)"

text \<open>The first state of the component, on the loaded tasks.\<close>

definition initial :: "task list \<Rightarrow> app" where
  "initial ts =
     \<lparr>tasks = ts, taskName = '''', priority_st = Medium, dueDate_st = '''', editingTask = None\<rparr>"

text \<open>The effect on \<^verbatim>\<open>[tasks]\<close>: writes the whole list under the key \<^verbatim>\<open>tasks\<close>.\<close>

definition saveTasks :: "app \<Rightarrow> storage \<Rightarrow> storage" where
  "saveTasks s st = st(''tasks'' \<mapsto> JSON_stringify (tasks s))"

text \<open>
  The events of the page: a click on the submit button (with the reading of the clock
  at that moment), on a delete or an edit button of a card, on cancel, and a change of
  one of the three inputs.
\<close>

datatype event = Submit int | Delete string | Edit task | Cancel
  | SetTaskName string | SetPriority priority | SetDueDate string

fun handle :: "event \<Rightarrow> app \<Rightarrow> app" where
  "handle (Submit now) s = addOrUpdateTask now s"
| "handle (Delete i) s = deleteTask i s"
| "handle (Edit t) s = editTask t s"
| "handle Cancel s = resetForm s"
| "handle (SetTaskName v) s = s\<lparr>taskName := v\<rparr>"
| "handle (SetPriority v) s = s\<lparr>priority_st := v\<rparr>"
| "handle (SetDueDate v) s = s\<lparr>dueDate_st := v\<rparr>"

text \<open>
  Whether the handler sets a state cell, so that the component is rendered again:
  every handler does, except \<^verbatim>\<open>addOrUpdateTask\<close> when its guard returns. (When a
  setter is given the value that the cell already holds the render may be skipped; the
  list is then the one of the last render.) And whether the handler calls
  \<^verbatim>\<open>setTasks\<close>: \<^verbatim>\<open>addOrUpdateTask\<close> does after its guard, \<^verbatim>\<open>deleteTask\<close> always
  does, the others never do. Each call stores a new array, so the effect runs after the
  render that follows exactly these events.
\<close>

fun rerenders :: "event \<Rightarrow> app \<Rightarrow> bool" where
  "rerenders (Submit now) s = (taskName s \<noteq> [] \<and> dueDate_st s \<noteq> [])"
| "rerenders ev s = True"

fun sets_tasks :: "event \<Rightarrow> app \<Rightarrow> bool" where
  "sets_tasks (Submit now) s = (taskName s \<noteq> [] \<and> dueDate_st s \<noteq> [])"
| "sets_tasks (Delete i) s = True"
| "sets_tasks ev s = False"

text \<open>
  The page: the storage and the component. One event: the handler, then the render of
  the new state, then the effect. A card that throws in the render ends the event with
  its \<^verbatim>\<open>RangeError\<close>: nothing catches it, the effect does not run and the storage
  is not written.
\<close>

record page =
  localStorage :: storage
  component :: app

definition dispatch :: "(string \<Rightarrow> bool) \<Rightarrow> event \<Rightarrow> page \<Rightarrow> error + page" where
  "dispatch valid_date ev p =
     (if rerenders ev (component p) \<and> \<not> renders valid_date (tasks (handle ev (component p)))
      then Inl RangeError
      else Inr
        \<lparr>localStorage =
           (if sets_tasks ev (component p)
            then saveTasks (handle ev (component p)) (localStorage p)
            else localStorage p),
         component = handle ev (component p)\<rparr>)"

text \<open>
  Opening the page on a storage: the initialiser loads the list, the first render
  shows it and the effect writes it back. The initialiser may raise, and so may the
  first render; the storage is then left as it is. \<open>Outside\<close> is not an outcome of
  the source: it says that the stored text has no counterpart here, because a string
  of it is \<open>Unrepresentable\<close> or because its value is not one that \<open>as_tasks\<close>
  reads.
\<close>

datatype failure = Raised error | Outside

definition mount :: "(string \<Rightarrow> bool) \<Rightarrow> storage \<Rightarrow> failure + page" where
  "mount valid_date st =
     (case load st of
        Inl Unrepresentable \<Rightarrow> Inl Outside
      | Inl e \<Rightarrow> Inl (Raised e)
      | Inr v \<Rightarrow>
          (case as_tasks v of
             None \<Rightarrow> Inl Outside
           | Some ts \<Rightarrow>
               if renders valid_date ts
               then Inr \<lparr>localStorage = saveTasks (initial ts) st, component = initial ts\<rparr>
               else Inl (Raised RangeError)))"

text \<open>
  The tab of the browser: the page is open, or the component is not on the screen,
  after a failure, and only the storage is left. The user does something on the page
  (which has no effect when nothing is on the screen) or reloads the tab, which opens
  the page again on the storage as it is.
\<close>

datatype tab = Open page | Closed storage failure

fun storage_of :: "tab \<Rightarrow> storage" where
  "storage_of (Open p) = localStorage p"
| "storage_of (Closed st f) = st"

datatype action = Do event | Reload

fun act :: "(string \<Rightarrow> bool) \<Rightarrow> action \<Rightarrow> tab \<Rightarrow> tab" where
  "act valid_date (Do ev) (Open p) =
     (case dispatch valid_date ev p of
        Inl e \<Rightarrow> Closed (localStorage p) (Raised e)
      | Inr p' \<Rightarrow> Open p')"
| "act valid_date (Do ev) (Closed st f) = Closed st f"
| "act valid_date Reload t =
     (case mount valid_date (storage_of t) of
        Inl f \<Rightarrow> Closed (storage_of t) f
      | Inr p \<Rightarrow> Open p)"

definition act_all :: "(string \<Rightarrow> bool) \<Rightarrow> action list \<Rightarrow> tab \<Rightarrow> tab" where
  "act_all valid_date as t = foldl (\<lambda>t a. act valid_date a t) t as"

text \<open>The storage holds the serialisation of the list of the component.\<close>

definition synced :: "page \<Rightarrow> bool" where
  "synced p = (localStorage p ''tasks'' = Some (JSON_stringify (tasks (component p))))"

text \<open>
  A tab holds a list: the storage has its serialisation, and when the page is open the
  component has the list itself.
\<close>

fun holds_list :: "tab \<Rightarrow> task list \<Rightarrow> bool" where
  "holds_list (Open p) L =
     (localStorage p ''tasks'' = Some (JSON_stringify L) \<and> tasks (component p) = L)"
| "holds_list (Closed st f) L = (st ''tasks'' = Some (JSON_stringify L))"

text \<open>The clock readings of the submissions of a sequence, in order.\<close>

fun readings :: "action list \<Rightarrow> int list" where
  "readings [] = []"
| "readings (Do (Submit now) # as) = now # readings as"
| "readings (a # as) = readings as"

section \<open>Example states\<close>

definition taskA :: task where
  "taskA = \<lparr>id_task = ''1'', name = ''A'', priority = Low, dueDate = ''2024-01-01''\<rparr>"

definition taskB :: task where
  "taskB = \<lparr>id_task = ''2'', name = ''B'', priority = High, dueDate = ''2024-02-01''\<rparr>"

definition taskC :: task where
  "taskC = \<lparr>id_task = ''3'', name = ''C'', priority = Low, dueDate = ''2024-03-01''\<rparr>"

text \<open>The form is filled in and no task is being edited.\<close>

definition creating :: app where
  "creating = \<lparr>tasks = [taskA, taskB], taskName = ''Write spec'', priority_st = High,
     dueDate_st = ''2024-01-01'', editingTask = None\<rparr>"

text \<open>Task A is being edited: its priority was changed from Low to High in the form.\<close>

definition editingA :: app where
  "editingA = \<lparr>tasks = [taskA, taskB], taskName = ''A'', priority_st = High,
     dueDate_st = ''2024-01-01'', editingTask = Some taskA\<rparr>"

text \<open>Task A is being edited and the name was cleared in the form.\<close>

definition editingA_blank :: app where
  "editingA_blank = \<lparr>tasks = [taskA, taskB], taskName = '''', priority_st = High,
     dueDate_st = ''2024-01-01'', editingTask = Some taskA\<rparr>"

text \<open>
  Task A was selected for editing and then deleted (\<^verbatim>\<open>deleteTask\<close> leaves
  \<^verbatim>\<open>editingTask\<close> alone): the state \<open>deleteTask ''1'' (editTask taskA s)\<close>.
\<close>

definition editingDeleted :: app where
  "editingDeleted = \<lparr>tasks = [taskB], taskName = ''A'', priority_st = Low,
     dueDate_st = ''2024-01-01'', editingTask = Some taskA\<rparr>"

lemmas example_defs = taskA_def taskB_def taskC_def creating_def editingA_def editingA_blank_def
  editingDeleted_def

text \<open>A list with one task, whose id is the clock reading of the start of 2024.\<close>

definition taskT :: task where
  "taskT = \<lparr>id_task = ''1704067200000'', name = ''T'', priority = Medium, dueDate = ''2024-01-01''\<rparr>"

text \<open>
  One engine, for the examples: it takes as valid dates the texts of the date-only form
  of the standard, \<^verbatim>\<open>YYYY-MM-DD\<close> with a month and a day that exist, which every
  engine accepts and which a date input produces, and no other text.
\<close>

definition leap_year :: "nat \<Rightarrow> bool" where
  "leap_year y = (y mod 4 = 0 \<and> (y mod 100 \<noteq> 0 \<or> y mod 400 = 0))"

definition days_in_month :: "nat \<Rightarrow> nat \<Rightarrow> nat" where
  "days_in_month y m =
     (if m = 2 then (if leap_year y then 29 else 28)
      else if m = 4 \<or> m = 6 \<or> m = 9 \<or> m = 11 then 30
      else 31)"

definition date_only :: "string \<Rightarrow> bool" where
  "date_only s =
     (case s of
        [y1, y2, y3, y4, h1, m1, m2, h2, d1, d2] \<Rightarrow>
          list_all is_digit [y1, y2, y3, y4, m1, m2, d1, d2] \<and> h1 = CHR ''-'' \<and> h2 = CHR ''-''
          \<and> 1 \<le> digits_value [m1, m2] \<and> digits_value [m1, m2] \<le> 12
          \<and> 1 \<le> digits_value [d1, d2]
          \<and> digits_value [d1, d2] \<le> days_in_month (digits_value [y1, y2, y3, y4]) (digits_value [m1, m2])
      | _ \<Rightarrow> False)"

text \<open>
  A page opened on a storage that holds task T, and two sessions on it. In the first a
  task is submitted with a due date that is no date, so that its card throws; the tab
  is reloaded, a task is created, the tab is reloaded again, task T is edited to High
  and the created task is deleted. In the second two tasks are created, the second at
  the clock reading that is the id of task T.
\<close>

definition pageT :: page where
  "pageT = \<lparr>localStorage = Map.empty(''tasks'' \<mapsto> JSON_stringify [taskT]),
     component = initial [taskT]\<rparr>"

definition session :: "action list" where
  "session = [Do (SetTaskName ''S''), Do (SetDueDate ''soon''), Do (Submit 1704067200001),
     Reload,
     Do (SetTaskName ''U''), Do (SetDueDate ''2024-01-02''), Do (Submit 1704067200002),
     Reload, Do (Edit taskT), Do (SetPriority High), Do (Submit 1704067200003),
     Do (Delete ''1704067200002'')]"

definition colliding :: "action list" where
  "colliding = [Do (SetTaskName ''U''), Do (SetDueDate ''2024-01-02''), Do (Submit 1704067199999),
     Do (SetTaskName ''V''), Do (SetDueDate ''2024-01-03''), Do (Submit 1704067200000)]"

text \<open>Two persisted texts: one cut off in the middle, one holding task A.\<close>

definition truncated :: string where
  \<open>truncated = ''[{"id":"1","name":"A"''\<close>

definition saved_one :: string where
  \<open>saved_one = ''[{"id":"1","name":"A","priority":"Low","dueDate":"2024-01-01"}]''\<close>

text \<open>A page with nothing stored yet, task A being edited.\<close>

definition page0 :: page where
  "page0 = \<lparr>localStorage = Map.empty, component = editingA\<rparr>"

text \<open>
  A page that holds tasks A and B, in the storage as on the screen; the form is filled
  in with a name and with a due date that is no date.
\<close>

definition pageSoon :: page where
  "pageSoon = \<lparr>localStorage = Map.empty(''tasks'' \<mapsto> JSON_stringify [taskA, taskB]),
     component = \<lparr>tasks = [taskA, taskB], taskName = ''S'', priority_st = Medium,
       dueDate_st = ''soon'', editingTask = None\<rparr>\<rparr>"

section \<open>Creating a task\<close>

text \<open>
  C1. With a non-empty name, a non-empty due date and no task being edited,
  \<^verbatim>\<open>addOrUpdateTask\<close> makes the list one longer: the result is the old list followed
  by one new task, whose name, priority and due date are the submitted ones (and whose
  id is the rendering of the clock).
\<close>

theorem create_appends:
  assumes "taskName s \<noteq> []" and "dueDate_st s \<noteq> []" and "editingTask s = None"
  shows "length (tasks (addOrUpdateTask now s)) = length (tasks s) + 1
    \<and> tasks (addOrUpdateTask now s) =
        tasks s @ [\<lparr>id_task = toString now, name = taskName s, priority = priority_st s,
                    dueDate = dueDate_st s\<rparr>]"
  using assms by (simp add: addOrUpdateTask_def resetForm_def newTask_def Let_def)

theorem create_appends_witness:
  "length (tasks (addOrUpdateTask 1704067200000 creating)) = 3
   \<and> tasks (addOrUpdateTask 1704067200000 creating) =
       [taskA, taskB, \<lparr>id_task = toString 1704067200000, name = ''Write spec'', priority = High,
                       dueDate = ''2024-01-01''\<rparr>]"
proof -
  have h: "taskName creating \<noteq> []" "dueDate_st creating \<noteq> []" "editingTask creating = None"
    by (simp_all add: creating_def)
  from create_appends [OF h, of 1704067200000] show ?thesis
    by (simp add: creating_def)
qed

section \<open>Updating a task\<close>

text \<open>
  C2. With a non-empty name and due date, and a task being edited whose id is the id of
  a task of the list, \<^verbatim>\<open>addOrUpdateTask\<close> keeps the length of the list and the id at
  every position; at each position whose task has the edited id the task becomes the
  submitted fields under that same id, and at every other position the task is
  unchanged. When the ids of the list are distinct there is exactly one such position.
\<close>

theorem update_in_place:
  assumes "taskName s \<noteq> []" and "dueDate_st s \<noteq> []" and "editingTask s = Some e"
    and "\<exists>t \<in> set (tasks s). id_task t = id_task e"
  shows "length (tasks (addOrUpdateTask now s)) = length (tasks s)
    \<and> map id_task (tasks (addOrUpdateTask now s)) = map id_task (tasks s)
    \<and> (\<forall>i < length (tasks s).
          tasks (addOrUpdateTask now s) ! i =
            (if id_task (tasks s ! i) = id_task e
             then \<lparr>id_task = id_task e, name = taskName s, priority = priority_st s,
                    dueDate = dueDate_st s\<rparr>
             else tasks s ! i))
    \<and> (distinct (map id_task (tasks s)) \<longrightarrow>
          (\<exists>!i. i < length (tasks s) \<and> id_task (tasks s ! i) = id_task e))"
proof -
  let ?nt = "\<lparr>id_task = id_task e, name = taskName s, priority = priority_st s,
                dueDate = dueDate_st s\<rparr>"
  have res: "tasks (addOrUpdateTask now s) =
      map (\<lambda>t. if id_task t = id_task e then ?nt else t) (tasks s)"
    using assms(1-3) by (simp add: addOrUpdateTask_def resetForm_def newTask_def Let_def)
  have ids: "map id_task (map (\<lambda>t. if id_task t = id_task e then ?nt else t) ts)
      = map id_task ts" for ts
    by (induction ts) auto
  have uniq: "\<exists>!i. i < length (tasks s) \<and> id_task (tasks s ! i) = id_task e"
    if d: "distinct (map id_task (tasks s))"
  proof -
    from assms(4) obtain i where i: "i < length (tasks s)" "id_task (tasks s ! i) = id_task e"
      by (auto simp: in_set_conv_nth)
    show ?thesis
    proof (rule ex1I [of _ i])
      show "i < length (tasks s) \<and> id_task (tasks s ! i) = id_task e" using i by simp
    next
      fix j assume j: "j < length (tasks s) \<and> id_task (tasks s ! j) = id_task e"
      with i have "map id_task (tasks s) ! j = map id_task (tasks s) ! i" by simp
      moreover have "j < length (map id_task (tasks s))" "i < length (map id_task (tasks s))"
        using i j by simp_all
      ultimately show "j = i" using d nth_eq_iff_index_eq by blast
    qed
  qed
  show ?thesis using res ids uniq by simp
qed

theorem update_in_place_witness:
  "tasks (addOrUpdateTask 5 editingA) =
     [\<lparr>id_task = ''1'', name = ''A'', priority = High, dueDate = ''2024-01-01''\<rparr>, taskB]
   \<and> map id_task (tasks (addOrUpdateTask 5 editingA)) = [''1'', ''2'']
   \<and> (\<exists>!i. i < length (tasks editingA) \<and> id_task (tasks editingA ! i) = ''1'')"
proof -
  have h: "taskName editingA \<noteq> []" "dueDate_st editingA \<noteq> []" "editingTask editingA = Some taskA"
    "\<exists>t \<in> set (tasks editingA). id_task t = id_task taskA"
    by (simp_all add: example_defs)
  have d: "distinct (map id_task (tasks editingA))"
    by (simp add: example_defs)
  have l: "length (tasks editingA) = 2" "id_task taskA = ''1''" "id_task taskB = ''2''"
    "tasks editingA ! 0 = taskA" "tasks editingA ! 1 = taskB"
    by (simp_all add: example_defs)
  note u = update_in_place [OF h, of 5]
  from u have len: "length (tasks (addOrUpdateTask 5 editingA)) = 2" using l by simp
  from u l have "tasks (addOrUpdateTask 5 editingA) ! 0 =
      (if id_task (tasks editingA ! 0) = id_task taskA then
        \<lparr>id_task = id_task taskA, name = taskName editingA, priority = priority_st editingA,
          dueDate = dueDate_st editingA\<rparr> else tasks editingA ! 0)"
    by simp
  then have a0: "tasks (addOrUpdateTask 5 editingA) ! 0 =
      \<lparr>id_task = ''1'', name = ''A'', priority = High, dueDate = ''2024-01-01''\<rparr>"
    using l by (simp add: editingA_def)
  from u l have "tasks (addOrUpdateTask 5 editingA) ! 1 =
      (if id_task (tasks editingA ! 1) = id_task taskA then
        \<lparr>id_task = id_task taskA, name = taskName editingA, priority = priority_st editingA,
          dueDate = dueDate_st editingA\<rparr> else tasks editingA ! 1)"
    by simp
  then have a1: "tasks (addOrUpdateTask 5 editingA) ! 1 = taskB"
    using l by simp
  have "tasks (addOrUpdateTask 5 editingA) =
     [\<lparr>id_task = ''1'', name = ''A'', priority = High, dueDate = ''2024-01-01''\<rparr>, taskB]"
    using len a0 a1 by (auto simp: list_eq_iff_nth_eq less_Suc_eq numeral_2_eq_2)
  moreover from u have "map id_task (tasks (addOrUpdateTask 5 editingA)) = [''1'', ''2'']"
    by (simp add: example_defs)
  moreover from u d l have "\<exists>!i. i < length (tasks editingA) \<and> id_task (tasks editingA ! i) = ''1''"
    by simp
  ultimately show ?thesis by simp
qed

text \<open>
  C7. The claim is that a submission with a task being edited whose id matches no task
  of the list appends a new task with a fresh id. It does not: the choice between
  mapping and appending looks at \<^verbatim>\<open>editingTask\<close> alone, so the map replaces nothing
  and the list is left as it was. In \<open>editingDeleted\<close> the edited task A is no
  longer in the list, the form is valid, and the list stays \<open>[taskB]\<close>.
\<close>

theorem stale_edit_appends_counterexample:
  "taskName editingDeleted \<noteq> [] \<and> dueDate_st editingDeleted \<noteq> []
   \<and> editingTask editingDeleted = Some taskA
   \<and> id_task taskA \<notin> id_task ` set (tasks editingDeleted)
   \<and> tasks (addOrUpdateTask 5 editingDeleted) = [taskB]
   \<and> length (tasks (addOrUpdateTask 5 editingDeleted)) \<noteq> length (tasks editingDeleted) + 1"
  by (simp add: example_defs addOrUpdateTask_def resetForm_def newTask_def Let_def)

text \<open>
  C7, as the code has it: with a non-empty name and due date and a task being edited
  whose id matches no task of the list, \<^verbatim>\<open>addOrUpdateTask\<close> leaves the list unchanged
  (nothing is appended, the count stays the same).
\<close>

theorem stale_edit_keeps_list:
  assumes "taskName s \<noteq> []" and "dueDate_st s \<noteq> []" and "editingTask s = Some e"
    and "id_task e \<notin> id_task ` set (tasks s)"
  shows "tasks (addOrUpdateTask now s) = tasks s"
proof -
  have "map (\<lambda>t. if id_task t = id_task e then nt else t) ts = ts"
    if "id_task e \<notin> id_task ` set ts" for nt and ts :: "task list"
    using that by (induction ts) auto
  with assms show ?thesis
    by (simp add: addOrUpdateTask_def resetForm_def Let_def)
qed

theorem stale_edit_keeps_list_witness:
  "tasks (addOrUpdateTask 5 editingDeleted) = tasks editingDeleted
   \<and> tasks editingDeleted = [taskB]"
proof -
  have h: "taskName editingDeleted \<noteq> []" "dueDate_st editingDeleted \<noteq> []"
    "editingTask editingDeleted = Some taskA"
    "id_task taskA \<notin> id_task ` set (tasks editingDeleted)"
    by (simp_all add: example_defs)
  from stale_edit_keeps_list [OF h, of 5] show ?thesis
    by (simp add: editingDeleted_def)
qed

section \<open>Rejected submissions\<close>

text \<open>
  C3. When the name or the due date of the form is empty, \<^verbatim>\<open>addOrUpdateTask\<close> leaves
  the task list as it was, whether or not a task is being edited.
\<close>

theorem invalid_submit_keeps_tasks:
  assumes "taskName s = [] \<or> dueDate_st s = []"
  shows "tasks (addOrUpdateTask now s) = tasks s"
  using assms by (auto simp: addOrUpdateTask_def)

theorem invalid_submit_keeps_tasks_witness:
  "editingTask editingA_blank = Some taskA
   \<and> tasks (addOrUpdateTask 5 editingA_blank) = [taskA, taskB]"
proof -
  have h: "taskName editingA_blank = [] \<or> dueDate_st editingA_blank = []"
    by (simp add: editingA_blank_def)
  from invalid_submit_keeps_tasks [OF h, of 5] show ?thesis
    by (simp add: editingA_blank_def)
qed

text \<open>
  C10. A submission rejected for an empty name or due date returns the whole state as
  it was: the form cells and the task being edited are the same. A submission with
  both non-empty leaves the form at its defaults: empty name, Medium, empty date, no
  task being edited.
\<close>

theorem submit_form_state:
  "(taskName s = [] \<or> dueDate_st s = [] \<longrightarrow>
      addOrUpdateTask now s = s
      \<and> taskName (addOrUpdateTask now s) = taskName s
      \<and> priority_st (addOrUpdateTask now s) = priority_st s
      \<and> dueDate_st (addOrUpdateTask now s) = dueDate_st s
      \<and> editingTask (addOrUpdateTask now s) = editingTask s)
   \<and> (taskName s \<noteq> [] \<and> dueDate_st s \<noteq> [] \<longrightarrow>
      taskName (addOrUpdateTask now s) = ''''
      \<and> priority_st (addOrUpdateTask now s) = Medium
      \<and> dueDate_st (addOrUpdateTask now s) = ''''
      \<and> editingTask (addOrUpdateTask now s) = None)"
  by (auto simp: addOrUpdateTask_def resetForm_def Let_def)

theorem submit_form_state_witness:
  "addOrUpdateTask 5 editingA_blank = editingA_blank
   \<and> editingTask (addOrUpdateTask 5 editingA_blank) = Some taskA
   \<and> priority_st (addOrUpdateTask 5 editingA_blank) = High
   \<and> taskName (addOrUpdateTask 5 editingA) = ''''
   \<and> priority_st (addOrUpdateTask 5 editingA) = Medium
   \<and> dueDate_st (addOrUpdateTask 5 editingA) = ''''
   \<and> editingTask (addOrUpdateTask 5 editingA) = None"
proof -
  have b: "taskName editingA_blank = [] \<or> dueDate_st editingA_blank = []"
    by (simp add: editingA_blank_def)
  have v: "taskName editingA \<noteq> [] \<and> dueDate_st editingA \<noteq> []"
    by (simp add: editingA_def)
  have e: "editingTask editingA_blank = Some taskA" "priority_st editingA_blank = High"
    by (simp_all add: editingA_blank_def)
  from submit_form_state [of editingA_blank 5] b
  have "addOrUpdateTask 5 editingA_blank = editingA_blank"
    by blast
  with e have 1: "addOrUpdateTask 5 editingA_blank = editingA_blank
    \<and> editingTask (addOrUpdateTask 5 editingA_blank) = Some taskA
    \<and> priority_st (addOrUpdateTask 5 editingA_blank) = High"
    by simp
  from submit_form_state [of editingA 5] v
  have 2: "taskName (addOrUpdateTask 5 editingA) = ''''
    \<and> priority_st (addOrUpdateTask 5 editingA) = Medium
    \<and> dueDate_st (addOrUpdateTask 5 editingA) = ''''
    \<and> editingTask (addOrUpdateTask 5 editingA) = None"
    by blast
  from 1 2 show ?thesis by blast
qed

section \<open>Deleting a task\<close>

text \<open>
  C4. After \<^verbatim>\<open>deleteTask i\<close> no task of the list has the id \<open>i\<close>; when no task had
  it before, the state is the same as before; and deleting twice gives the same state
  as deleting once.
\<close>

theorem delete_removes_id:
  "i \<notin> id_task ` set (tasks (deleteTask i s))
   \<and> (i \<notin> id_task ` set (tasks s) \<longrightarrow> deleteTask i s = s)
   \<and> deleteTask i (deleteTask i s) = deleteTask i s"
proof -
  have "filter (\<lambda>t. id_task t \<noteq> i) ts = ts" if "i \<notin> id_task ` set ts" for ts :: "task list"
    using that by (induction ts) auto
  then show ?thesis by (auto simp: deleteTask_def)
qed

theorem delete_removes_id_witness:
  "tasks (deleteTask ''1'' creating) = [taskB]
   \<and> deleteTask ''7'' creating = creating
   \<and> deleteTask ''1'' (deleteTask ''1'' creating) = deleteTask ''1'' creating"
proof -
  have a: "''7'' \<notin> id_task ` set (tasks creating)"
    by (simp add: example_defs)
  have "tasks (deleteTask ''1'' creating) = [taskB]"
    by (simp add: example_defs deleteTask_def)
  with delete_removes_id [of "''7''" creating] delete_removes_id [of "''1''" creating] a
  show ?thesis by simp
qed

section \<open>The grouped view is a partition\<close>

lemma group_step_apply:
  "group_step acc t p =
     (if priority t = p then Some ((case acc p of None \<Rightarrow> [] | Some b \<Rightarrow> b) @ [t]) else acc p)"
  by (auto simp: group_step_def Let_def split: option.splits)

lemma foldl_group_step:
  "foldl group_step acc ts p =
     (if filter (\<lambda>t. priority t = p) ts = [] then acc p
      else Some ((case acc p of None \<Rightarrow> [] | Some b \<Rightarrow> b) @ filter (\<lambda>t. priority t = p) ts))"
proof (induction ts arbitrary: acc)
  case Nil
  show ?case by simp
next
  case (Cons t ts)
  let ?f = "filter (\<lambda>t. priority t = p) ts"
  have "foldl group_step acc (t # ts) p = foldl group_step (group_step acc t) ts p"
    by simp
  also have "\<dots> = (if ?f = [] then group_step acc t p
      else Some ((case group_step acc t p of None \<Rightarrow> [] | Some b \<Rightarrow> b) @ ?f))"
    by (rule Cons.IH)
  also have "\<dots> = (if filter (\<lambda>t. priority t = p) (t # ts) = [] then acc p
      else Some ((case acc p of None \<Rightarrow> [] | Some b \<Rightarrow> b) @ filter (\<lambda>t. priority t = p) (t # ts)))"
    unfolding group_step_apply [of acc t p] by (simp split: option.splits)
  finally show ?case .
qed

lemma groupedTasks_apply:
  "groupedTasks ts p =
     (if filter (\<lambda>t. priority t = p) ts = [] then None
      else Some (filter (\<lambda>t. priority t = p) ts))"
  by (simp add: groupedTasks_def foldl_group_step)

lemma sections_eq:
  "sections ts =
     [(p, filter (\<lambda>t. priority t = p) ts). p \<leftarrow> [High, Medium, Low],
        filter (\<lambda>t. priority t = p) ts \<noteq> []]"
  by (simp add: sections_def priorityOrder_def groupedTasks_apply)

lemma mset_by_priority:
  "mset (filter (\<lambda>t. priority t = High) ts) + mset (filter (\<lambda>t. priority t = Medium) ts)
     + mset (filter (\<lambda>t. priority t = Low) ts) = mset ts"
proof (induction ts)
  case Nil
  show ?case by simp
next
  case (Cons t ts)
  then show ?case by (cases "priority t") simp_all
qed

lemma sections_buckets:
  "concat (map snd (sections ts)) =
     filter (\<lambda>t. priority t = High) ts @ filter (\<lambda>t. priority t = Medium) ts
       @ filter (\<lambda>t. priority t = Low) ts"
  by (simp add: sections_eq)

text \<open>
  C5. The rendered sections are, for High, Medium and Low in this order, the level
  with the tasks of that priority in the order of the list, a level with no task being
  left out. So the buckets together hold every task of the list exactly once (as
  multisets), each bucket keeps the order of the list, the levels appear in the order
  High, Medium, Low whatever the order of the list, and no bucket is empty.
\<close>

theorem grouping_partition:
  "sections ts =
     [(p, filter (\<lambda>t. priority t = p) ts). p \<leftarrow> [High, Medium, Low],
        filter (\<lambda>t. priority t = p) ts \<noteq> []]
   \<and> mset (concat (map snd (sections ts))) = mset ts
   \<and> map fst (sections ts) = filter (\<lambda>p. \<exists>t \<in> set ts. priority t = p) [High, Medium, Low]
   \<and> [] \<notin> snd ` set (sections ts)"
proof -
  have e: "(filter (\<lambda>t. priority t = p) ts = []) = (\<not> (\<exists>t \<in> set ts. priority t = p))" for p
    by (auto simp: filter_empty_conv)
  have "mset (concat (map snd (sections ts))) = mset ts"
    using mset_by_priority [of ts] by (simp add: sections_buckets add.assoc)
  moreover have "map fst (sections ts) = filter (\<lambda>p. \<exists>t \<in> set ts. priority t = p) [High, Medium, Low]"
    by (simp add: sections_eq e)
  moreover have "[] \<notin> snd ` set (sections ts)"
    by (auto simp: sections_eq)
  ultimately show ?thesis using sections_eq by blast
qed

text \<open>
  The scenario of the specification: a Low task, then a High one, then another Low one
  give the High section first, and no Medium section.
\<close>

lemma sections_example:
  "sections [taskA, taskB, taskC] = [(High, [taskB]), (Low, [taskA, taskC])]"
  by (simp add: sections_def groupedTasks_def group_step_def priorityOrder_def example_defs)

section \<open>The round trip through the storage\<close>

text \<open>
  What \<^verbatim>\<open>JSON.stringify\<close> writes for a task list, \<^verbatim>\<open>JSON.parse\<close> reads back as
  that list: first for a quoted string, then for the tokens of a task and of a list,
  then for the parser.
\<close>

lemma hex_val_hex_digit: "d < 16 \<Longrightarrow> hex_val (hex_digit d) = Some d"
proof -
  assume "d < 16"
  then consider "d = 0" | "d = 1" | "d = 2" | "d = 3" | "d = 4" | "d = 5" | "d = 6" | "d = 7"
    | "d = 8" | "d = 9" | "d = 10" | "d = 11" | "d = 12" | "d = 13" | "d = 14" | "d = 15"
    by atomize_elim arith
  then show ?thesis
    by cases (simp_all add: hex_digit_def hex_val_def)
qed

lemma hex4_control:
  assumes "(of_char c :: nat) < 32"
  shows "hex4 CHR ''0'' CHR ''0'' (hex_digit ((of_char c :: nat) div 16))
    (hex_digit ((of_char c :: nat) mod 16)) = Some (of_char c)"
proof -
  have "(of_char c :: nat) div 16 < 16" using assms by simp
  moreover have "(of_char c :: nat) mod 16 < 16" by simp
  moreover have "hex_val CHR ''0'' = Some 0" by (simp add: hex_val_def)
  ultimately show ?thesis
    by (simp add: hex4_def hex_val_hex_digit)
qed

lemma lex_string_quote_char:
  "lex_string acc (quote_char c @ rest) = lex_string (c # acc) rest"
  unfolding quote_char_def
  by (simp add: unescape_def hex4_control)

lemma lex_string_quoted:
  "lex_string acc (concat (map quote_char s) @ CHR 0x22 # rest) = Inr (rev acc @ s, rest)"
proof (induction s arbitrary: acc)
  case Nil
  show ?case by simp
next
  case (Cons c s)
  have "lex_string acc (concat (map quote_char (c # s)) @ CHR 0x22 # rest) =
      lex_string acc (quote_char c @ (concat (map quote_char s) @ CHR 0x22 # rest))"
    by simp
  also have "\<dots> = lex_string (c # acc) (concat (map quote_char s) @ CHR 0x22 # rest)"
    by (rule lex_string_quote_char)
  also have "\<dots> = Inr (rev (c # acc) @ s, rest)"
    by (rule Cons.IH)
  finally show ?case by simp
qed

lemma lex_quote: "lex (quote s @ rest) = map_sum id (Cons (TString s)) (lex rest)"
proof -
  have "quote s @ rest = CHR 0x22 # (concat (map quote_char s) @ CHR 0x22 # rest)"
    by (simp add: quote_def)
  then show ?thesis
    by (simp add: lex_string_quoted is_ws_def punct_def)
qed


lemma lex_punct:
  "lex (CHR ''{'' # rest) = map_sum id (Cons LBrace) (lex rest)"
  "lex (CHR ''}'' # rest) = map_sum id (Cons RBrace) (lex rest)"
  "lex (CHR ''['' # rest) = map_sum id (Cons LBracket) (lex rest)"
  "lex (CHR '']'' # rest) = map_sum id (Cons RBracket) (lex rest)"
  "lex (CHR '':'' # rest) = map_sum id (Cons Colon) (lex rest)"
  "lex (CHR '','' # rest) = map_sum id (Cons Comma) (lex rest)"
  by (simp_all add: is_ws_def punct_def)

lemma map_sum_Cons: "map_sum id (Cons a) (map_sum id f x) = map_sum id (\<lambda>ts. a # f ts) x"
  by (cases x) simp_all

lemma lex_stringify_task:
  "lex (stringify_task t @ rest) = map_sum id (\<lambda>ts. task_tokens t @ ts) (lex rest)"
proof -
  have q: "lex (quote s @ r) = map_sum id (Cons (TString s)) (lex r)" for s r
    by (rule lex_quote)
  have "stringify_task t @ rest =
     CHR ''{'' # quote ''id'' @ CHR '':'' # quote (id_task t) @ CHR '','' #
     quote ''name'' @ CHR '':'' # quote (name t) @ CHR '','' #
     quote ''priority'' @ CHR '':'' # quote (priority_name (priority t)) @ CHR '','' #
     quote ''dueDate'' @ CHR '':'' # quote (dueDate t) @ CHR ''}'' # rest"
    by (simp add: stringify_task_def)
  then show ?thesis
    by (simp only: lex_punct q map_sum_Cons task_tokens_def append.simps)
qed


lemma map_sum_append:
  "map_sum id (\<lambda>ts. a @ ts) (map_sum id (\<lambda>ts. b @ ts) x) = map_sum id (\<lambda>ts. (a @ b) @ ts) x"
  by (cases x) simp_all

lemma lex_elems:
  "lex (join_comma (map stringify_task ts) @ rest) = map_sum id (\<lambda>r. elems_tokens ts @ r) (lex rest)"
proof (induction ts rule: elems_tokens.induct)
  case 1
  show ?case by (cases "lex rest") simp_all
next
  case (2 t)
  show ?case by (simp only: list.map join_comma.simps elems_tokens.simps lex_stringify_task)
next
  case (3 t u us)
  have "lex (join_comma (map stringify_task (t # u # us)) @ rest) =
      lex (stringify_task t @ CHR '','' # (join_comma (map stringify_task (u # us)) @ rest))"
    by simp
  also have "\<dots> = map_sum id (\<lambda>r. task_tokens t @ r)
      (map_sum id (Cons Comma) (lex (join_comma (map stringify_task (u # us)) @ rest)))"
    by (simp only: lex_stringify_task lex_punct)
  also have "\<dots> = map_sum id (\<lambda>r. task_tokens t @ r)
      (map_sum id (Cons Comma) (map_sum id (\<lambda>r. elems_tokens (u # us) @ r) (lex rest)))"
    by (simp only: "3.IH")
  also have "\<dots> = map_sum id (\<lambda>r. elems_tokens (t # u # us) @ r) (lex rest)"
    by (cases "lex rest") simp_all
  finally show ?case .
qed

lemma lex_JSON_stringify:
  "lex (JSON_stringify ts) = Inr (LBracket # elems_tokens ts @ [RBracket])"
proof -
  have "JSON_stringify ts = CHR ''['' # (join_comma (map stringify_task ts) @ '']'')"
    by (simp add: JSON_stringify_def)
  then have "lex (JSON_stringify ts) =
      map_sum id (Cons LBracket) (map_sum id (\<lambda>r. elems_tokens ts @ r) (lex '']''))"
    by (simp only: lex_punct lex_elems)
  also have "lex '']'' = Inr [RBracket]"
    by (simp add: is_ws_def punct_def)
  finally show ?thesis by simp
qed

lemma parse_task_tokens:
  assumes "m = MValue \<or> m = MValueOrEnd"
  shows "parse_tokens m (FArray xs # fs) (task_tokens t @ rest) =
     parse_tokens MCommaOrEnd (FArray (xs @ [task_json t]) # fs) rest"
  using assms
  by (auto simp: task_tokens_def task_json_def step_def start_value_def start_key_def
      value_done_def close_object_def)

lemma parse_elems_tokens:
  assumes "ts \<noteq> []" and "m = MValue \<or> m = MValueOrEnd"
  shows "parse_tokens m (FArray xs # fs) (elems_tokens ts @ rest) =
     parse_tokens MCommaOrEnd (FArray (xs @ map task_json ts) # fs) rest"
  using assms
proof (induction ts arbitrary: m xs rule: elems_tokens.induct)
  case 1
  then show ?case by simp
next
  case (2 t)
  then show ?case by (simp add: parse_task_tokens)
next
  case (3 t u us)
  have "parse_tokens m (FArray xs # fs) (elems_tokens (t # u # us) @ rest) =
      parse_tokens m (FArray xs # fs) (task_tokens t @ (Comma # elems_tokens (u # us) @ rest))"
    by simp
  also have "\<dots> = parse_tokens MCommaOrEnd (FArray (xs @ [task_json t]) # fs)
      (Comma # elems_tokens (u # us) @ rest)"
    using "3.prems"(2) by (rule parse_task_tokens)
  also have "\<dots> = parse_tokens MValue (FArray (xs @ [task_json t]) # fs)
      (elems_tokens (u # us) @ rest)"
    by (simp add: step_def)
  also have "\<dots> = parse_tokens MCommaOrEnd
      (FArray ((xs @ [task_json t]) @ map task_json (u # us)) # fs) rest"
    by (rule "3.IH") simp_all
  finally show ?case by simp
qed

lemma parse_stringify:
  "JSON_parse (JSON_stringify ts) = Inr (JArray (map task_json ts))"
proof (cases "ts = []")
  case True
  then show ?thesis
    by (simp add: JSON_parse_def lex_JSON_stringify step_def start_value_def close_array_def
        value_done_def)
next
  case False
  have "parse_tokens MValue [] (LBracket # elems_tokens ts @ [RBracket]) =
      parse_tokens MValueOrEnd [FArray []] (elems_tokens ts @ [RBracket])"
    by (simp add: step_def start_value_def)
  also have "\<dots> = parse_tokens MCommaOrEnd [FArray ([] @ map task_json ts)] [RBracket]"
    using False by (intro parse_elems_tokens) simp_all
  also have "\<dots> = Inr (JArray (map task_json ts))"
    by (simp add: step_def close_array_def value_done_def)
  finally show ?thesis
    by (simp add: JSON_parse_def lex_JSON_stringify)
qed

lemma as_priority_name: "as_priority (priority_name p) = Some p"
  by (cases p) (simp_all add: as_priority_def)

lemma as_task_json: "as_task (task_json t) = Some t"
  by (simp add: as_task_def task_json_def as_priority_name)

lemma those_map_Some: "those (map (\<lambda>x. Some (f x)) xs) = Some (map f xs)"
  by (induction xs) simp_all

lemma as_tasks_json: "as_tasks (JArray (map task_json ts)) = Some ts"
proof -
  have "map as_task (map task_json ts) = map (\<lambda>t. Some (id t)) ts"
    by (simp add: as_task_json)
  then show ?thesis
    by (simp add: as_tasks_def those_map_Some del: map_map)
qed

lemma stringify_parse_roundtrip:
  "map_sum id as_tasks (JSON_parse (JSON_stringify ts)) = Inr (Some ts)"
  by (simp add: parse_stringify as_tasks_json)

section \<open>Loading the persisted list\<close>

lemma parse_truncated: "JSON_parse truncated = Inl SyntaxError"
  unfolding truncated_def by code_simp

lemma parse_saved_one:
  "JSON_parse saved_one =
     Inr (JArray [JObject [(''id'', JString ''1''), (''name'', JString ''A''),
       (''priority'', JString ''Low''), (''dueDate'', JString ''2024-01-01'')]])"
  unfolding saved_one_def by code_simp

lemma as_tasks_saved_one:
  "as_tasks (JArray [JObject [(''id'', JString ''1''), (''name'', JString ''A''),
       (''priority'', JString ''Low''), (''dueDate'', JString ''2024-01-01'')]]) = Some [taskA]"
  by (simp add: as_tasks_def as_task_def as_priority_def taskA_def)

text \<open>
  C6. The claim is that loading gives the empty list when the persisted value is absent
  or unparsable, and never raises. For an absent value it does; for an unparsable one
  it does not: \<^verbatim>\<open>JSON.parse\<close> is called with no handler around it, so its
  \<^verbatim>\<open>SyntaxError\<close> is the outcome of the load. Here the persisted text is cut off
  after the name of the first task.
\<close>

theorem load_unparsable_counterexample:
  "load (Map.empty(''tasks'' \<mapsto> truncated)) = Inl SyntaxError
   \<and> load (Map.empty(''tasks'' \<mapsto> truncated)) \<noteq> Inr (JArray [])
   \<and> mount date_only (Map.empty(''tasks'' \<mapsto> truncated)) = Inl (Raised SyntaxError)"
proof -
  have "load (Map.empty(''tasks'' \<mapsto> truncated)) = Inl SyntaxError"
    by (simp add: load_def parse_truncated) (simp add: truncated_def)
  then show ?thesis
    by (simp add: mount_def)
qed

text \<open>
  C6, as the code has it: when nothing is persisted under the key, or the empty text is,
  loading gives the empty array; for any other text it gives what \<^verbatim>\<open>JSON.parse\<close>
  gives for it, and in particular raises the error of \<^verbatim>\<open>JSON.parse\<close> when the text
  is unparsable.
\<close>

theorem load_result:
  "(st ''tasks'' = None \<or> st ''tasks'' = Some [] \<longrightarrow> load st = Inr (JArray []))
   \<and> (\<forall>saved. st ''tasks'' = Some saved \<and> saved \<noteq> [] \<longrightarrow> load st = JSON_parse saved)
   \<and> (\<forall>saved e. st ''tasks'' = Some saved \<and> saved \<noteq> [] \<and> JSON_parse saved = Inl e \<longrightarrow>
         load st = Inl e)"
  by (auto simp: load_def)

theorem load_result_witness:
  "load Map.empty = Inr (JArray [])
   \<and> load (Map.empty(''tasks'' \<mapsto> [])) = Inr (JArray [])
   \<and> load (Map.empty(''tasks'' \<mapsto> truncated)) = Inl SyntaxError
   \<and> map_sum id as_tasks (load (Map.empty(''tasks'' \<mapsto> saved_one))) = Inr (Some [taskA])"
proof -
  have n: "truncated \<noteq> []" "saved_one \<noteq> []"
    by (simp_all add: truncated_def saved_one_def)
  have 1: "load Map.empty = Inr (JArray [])"
    using load_result [of Map.empty] by simp
  have 2: "load (Map.empty(''tasks'' \<mapsto> [])) = Inr (JArray [])"
    using load_result [of "Map.empty(''tasks'' \<mapsto> [])"] by simp
  have 3: "load (Map.empty(''tasks'' \<mapsto> truncated)) = Inl SyntaxError"
    using load_result [of "Map.empty(''tasks'' \<mapsto> truncated)"] n parse_truncated by simp
  have "load (Map.empty(''tasks'' \<mapsto> saved_one)) = JSON_parse saved_one"
    using load_result [of "Map.empty(''tasks'' \<mapsto> saved_one)"] n by simp
  then have 4: "map_sum id as_tasks (load (Map.empty(''tasks'' \<mapsto> saved_one))) = Inr (Some [taskA])"
    by (simp add: parse_saved_one as_tasks_saved_one)
  from 1 2 3 4 show ?thesis by blast
qed

section \<open>Rendering\<close>

lemma set_sections: "set (concat (map snd (sections ts))) = set ts"
proof -
  have "t \<in> set (concat (map snd (sections ts))) \<longleftrightarrow> t \<in> set ts" for t
    by (cases "priority t") (auto simp: sections_buckets)
  then show ?thesis by blast
qed

lemma renders_iff: "renders valid_date ts \<longleftrightarrow> (\<forall>t \<in> set ts. valid_date (dueDate t))"
  unfolding renders_def list_all_iff set_sections TaskCard_def by (rule refl)

lemma date_only_examples:
  "date_only ''2024-01-01''" "date_only ''2024-01-02''" "date_only ''2024-01-03''"
  "date_only ''2024-02-01''" "\<not> date_only ''soon''"
  by (simp_all add: date_only_def is_digit_def digits_value_def days_in_month_def leap_year_def)

section \<open>Saving after a mutation\<close>

lemma stringify_taskB:
  \<open>JSON_stringify [taskB] = ''[{"id":"2","name":"B","priority":"High","dueDate":"2024-02-01"}]''\<close>
  by (simp add: JSON_stringify_def stringify_task_def quote_def quote_char_def taskB_def)

text \<open>
  C9. The claim is that after every successful mutating operation the persisted value is
  the serialisation of the list in memory. The write is the effect that follows the
  render of the new list, and a card whose due date is no valid date throws in that
  render. Here the storage holds tasks A and B; a task with the name S and the due date
  \<open>soon\<close> passes the guard and is appended to the list, the render throws, and the
  storage still holds A and B only.
\<close>

theorem mutation_not_persisted_counterexample:
  "taskName (component pageSoon) \<noteq> [] \<and> dueDate_st (component pageSoon) \<noteq> []
   \<and> editingTask (component pageSoon) = None
   \<and> tasks (handle (Submit 5) (component pageSoon)) =
       [taskA, taskB, \<lparr>id_task = ''5'', name = ''S'', priority = Medium, dueDate = ''soon''\<rparr>]
   \<and> dispatch date_only (Submit 5) pageSoon = Inl RangeError
   \<and> act date_only (Do (Submit 5)) (Open pageSoon) =
       Closed (Map.empty(''tasks'' \<mapsto> JSON_stringify [taskA, taskB])) (Raised RangeError)"
proof -
  have t: "tasks (handle (Submit 5) (component pageSoon)) =
       [taskA, taskB, \<lparr>id_task = ''5'', name = ''S'', priority = Medium, dueDate = ''soon''\<rparr>]"
    by (simp add: pageSoon_def addOrUpdateTask_def newTask_def resetForm_def Let_def
        toString_def digits.simps digit_char_def)
  have r: "\<not> renders date_only (tasks (handle (Submit 5) (component pageSoon)))"
    unfolding t by (simp add: renders_iff date_only_examples)
  have g: "rerenders (Submit 5) (component pageSoon)"
    by (simp add: pageSoon_def)
  from r g have d: "dispatch date_only (Submit 5) pageSoon = Inl RangeError"
    by (simp add: dispatch_def)
  have s: "localStorage pageSoon = Map.empty(''tasks'' \<mapsto> JSON_stringify [taskA, taskB])"
    by (simp add: pageSoon_def)
  have f: "taskName (component pageSoon) \<noteq> []" "dueDate_st (component pageSoon) \<noteq> []"
    "editingTask (component pageSoon) = None"
    by (simp_all add: pageSoon_def)
  from t d s f show ?thesis by simp
qed

text \<open>
  C9, as the code has it: after a delete, and after a submission with a non-empty name
  and due date (which creates or updates a task), when every task of the new list has a
  valid due date the event completes, and the page it leaves has the new list in the
  component and, under the key \<^verbatim>\<open>tasks\<close>, the serialisation of that whole list, the
  rest of the storage being as before. When some task of the new list has no valid due
  date the render throws, the component leaves the screen and the storage is as it was
  before the event.
\<close>

theorem mutation_persists:
  assumes "sets_tasks ev (component p)"
  shows "((\<forall>t \<in> set (tasks (handle ev (component p))). valid_date (dueDate t)) \<longrightarrow>
           dispatch valid_date ev p =
             Inr \<lparr>localStorage = (localStorage p)(''tasks'' \<mapsto>
                     JSON_stringify (tasks (handle ev (component p)))),
                  component = handle ev (component p)\<rparr>)
       \<and> (\<not> (\<forall>t \<in> set (tasks (handle ev (component p))). valid_date (dueDate t)) \<longrightarrow>
           dispatch valid_date ev p = Inl RangeError
           \<and> act valid_date (Do ev) (Open p) = Closed (localStorage p) (Raised RangeError))"
proof -
  from assms have "rerenders ev (component p)"
    by (cases ev) simp_all
  with assms show ?thesis
    by (simp add: dispatch_def renders_iff saveTasks_def)
qed

theorem mutation_persists_witness:
  \<open>dispatch date_only (Delete ''1'') page0 =
      Inr \<lparr>localStorage = Map.empty(''tasks'' \<mapsto>
              ''[{"id":"2","name":"B","priority":"High","dueDate":"2024-02-01"}]''),
           component = deleteTask ''1'' editingA\<rparr>
   \<and> tasks (deleteTask ''1'' editingA) = [taskB]
   \<and> dispatch date_only (Submit 5) pageSoon = Inl RangeError\<close>
proof -
  have d: "tasks (handle (Delete ''1'') (component page0)) = [taskB]"
    by (simp add: page0_def deleteTask_def example_defs)
  have v: "\<forall>t \<in> set (tasks (handle (Delete ''1'') (component page0))). date_only (dueDate t)"
    unfolding d by (simp add: taskB_def date_only_examples)
  have s: "sets_tasks (Delete ''1'') (component page0)"
    by simp
  have 1: "dispatch date_only (Delete ''1'') page0 =
      Inr \<lparr>localStorage = Map.empty(''tasks'' \<mapsto> JSON_stringify [taskB]),
           component = deleteTask ''1'' editingA\<rparr>"
    using mutation_persists [OF s, of date_only] v d by (simp add: page0_def)
  have t: "tasks (handle (Submit 5) (component pageSoon)) =
       [taskA, taskB, \<lparr>id_task = ''5'', name = ''S'', priority = Medium, dueDate = ''soon''\<rparr>]"
    by (simp add: pageSoon_def addOrUpdateTask_def newTask_def resetForm_def Let_def
        toString_def digits.simps digit_char_def)
  have n: "\<not> (\<forall>t \<in> set (tasks (handle (Submit 5) (component pageSoon))). date_only (dueDate t))"
    unfolding t by (simp add: date_only_examples)
  have s': "sets_tasks (Submit 5) (component pageSoon)"
    by (simp add: pageSoon_def)
  have 2: "dispatch date_only (Submit 5) pageSoon = Inl RangeError"
    using mutation_persists [OF s', of date_only] n by blast
  have 3: "tasks (deleteTask ''1'' editingA) = [taskB]"
    by (simp add: deleteTask_def example_defs)
  from 1 2 3 show ?thesis
    by (simp only: stringify_taskB simp_thms)
qed

section \<open>Identifiers stay unique\<close>

lemma digit_char_code: "d < 10 \<Longrightarrow> (of_char (digit_char d) :: nat) = 48 + d"
proof -
  assume "d < 10"
  then consider "d = 0" | "d = 1" | "d = 2" | "d = 3" | "d = 4" | "d = 5" | "d = 6" | "d = 7"
    | "d = 8" | "d = 9"
    by atomize_elim arith
  then show ?thesis
    by cases (simp_all add: digit_char_def)
qed

lemma digits_value_digits: "digits_value (digits n) = n"
proof (induction n rule: digits.induct)
  case (1 n)
  show ?case
  proof (cases "n < 10")
    case True
    then show ?thesis
      by (simp add: digits.simps [of n] digits_value_def digit_char_code)
  next
    case False
    with 1 have "digits_value (digits (n div 10)) = n div 10" by simp
    with False show ?thesis
      by (simp add: digits.simps [of n] digits_value_def digit_char_code)
  qed
qed

lemma digits_inj: "digits m = digits n \<Longrightarrow> m = n"
  by (metis digits_value_digits)

lemma digits_chars: "c \<in> set (digits n) \<Longrightarrow> 48 \<le> (of_char c :: nat)"
proof (induction n rule: digits.induct)
  case (1 n)
  show ?case
  proof (cases "n < 10")
    case True
    with 1(2) show ?thesis
      by (simp add: digits.simps [of n] digit_char_code)
  next
    case False
    with 1 show ?thesis
      by (auto simp: digits.simps [of n] digit_char_code)
  qed
qed

lemma digits_not_Nil: "digits n \<noteq> []"
  by (simp add: digits.simps [of n])

lemma digits_no_minus: "digits n \<noteq> CHR ''-'' # cs"
proof
  assume "digits n = CHR ''-'' # cs"
  then have "CHR ''-'' \<in> set (digits n)" by simp
  from digits_chars [OF this] show False by simp
qed

lemma toString_inj: "toString a = toString b \<Longrightarrow> a = b"
proof -
  assume e: "toString a = toString b"
  show ?thesis
  proof (cases "a < 0")
    case True
    note a = this
    show ?thesis
    proof (cases "b < 0")
      case True
      with a e have "nat (- a) = nat (- b)" by (auto simp: toString_def dest: digits_inj)
      with a True show ?thesis by simp
    next
      case False
      with a e have "digits (nat b) = CHR ''-'' # digits (nat (- a))"
        by (simp add: toString_def)
      with digits_no_minus show ?thesis by blast
    qed
  next
    case False
    note a = this
    show ?thesis
    proof (cases "b < 0")
      case True
      with a e have "digits (nat a) = CHR ''-'' # digits (nat (- b))"
        by (simp add: toString_def)
      with digits_no_minus show ?thesis by blast
    next
      case False
      with a e have "nat a = nat b" by (auto simp: toString_def dest: digits_inj)
      with a False show ?thesis by simp
    qed
  qed
qed

lemma map_replace_ids:
  "id_task nt = i \<Longrightarrow> map id_task (map (\<lambda>t. if id_task t = i then nt else t) ts) = map id_task ts"
  by (induction ts) auto

lemma addOrUpdateTask_ids:
  "map id_task (tasks (addOrUpdateTask now s)) = map id_task (tasks s)
   \<or> map id_task (tasks (addOrUpdateTask now s)) = map id_task (tasks s) @ [toString now]"
  by (auto simp: addOrUpdateTask_def resetForm_def newTask_def Let_def map_replace_ids
      split: option.splits)

lemma addOrUpdateTask_id_set:
  "id_task ` set (tasks (addOrUpdateTask now s)) \<subseteq> insert (toString now) (id_task ` set (tasks s))"
proof -
  from addOrUpdateTask_ids [of now s]
  have "set (map id_task (tasks (addOrUpdateTask now s))) = set (map id_task (tasks s))
    \<or> set (map id_task (tasks (addOrUpdateTask now s))) = set (map id_task (tasks s) @ [toString now])"
    by (elim disjE) (simp_all only: simp_thms)
  then show ?thesis by auto
qed

lemma handle_ids:
  "id_task ` set (tasks (handle ev s)) \<subseteq>
     id_task ` set (tasks s) \<union> toString ` set (readings [Do ev])"
proof (cases ev)
  case (Submit now)
  with addOrUpdateTask_id_set [of now s] show ?thesis by auto
next
  case (Delete i)
  then show ?thesis by (auto simp: deleteTask_def)
qed (simp_all add: editTask_def resetForm_def)

lemma handle_distinct:
  assumes "distinct (map id_task (tasks s))"
    and "\<forall>now \<in> set (readings [Do ev]). toString now \<notin> id_task ` set (tasks s)"
  shows "distinct (map id_task (tasks (handle ev s)))"
proof (cases ev)
  case (Submit now)
  with addOrUpdateTask_ids [of now s] assms show ?thesis by auto
next
  case (Delete i)
  with assms(1) show ?thesis by (simp add: deleteTask_def distinct_map_filter)
qed (use assms(1) in \<open>simp_all add: editTask_def resetForm_def\<close>)

lemma readings_Cons: "readings (a # as) = readings [a] @ readings as"
proof (cases a)
  case (Do ev)
  then show ?thesis by (cases ev) simp_all
next
  case Reload
  then show ?thesis by simp
qed

lemma handle_keeps_tasks: "\<not> sets_tasks ev s \<Longrightarrow> tasks (handle ev s) = tasks s"
  by (cases ev) (auto simp: addOrUpdateTask_def editTask_def resetForm_def)

lemma mount_stringify:
  assumes "st ''tasks'' = Some (JSON_stringify L)"
  shows "mount valid_date st =
    (if renders valid_date L then Inr \<lparr>localStorage = st, component = initial L\<rparr>
     else Inl (Raised RangeError))"
proof -
  have "JSON_stringify L \<noteq> []"
    by (simp add: JSON_stringify_def)
  with assms have "load st = Inr (JArray (map task_json L))"
    by (simp add: load_def parse_stringify)
  moreover have "st(''tasks'' \<mapsto> JSON_stringify L) = st"
    using assms by (rule map_upd_triv)
  ultimately show ?thesis
    by (simp add: mount_def as_tasks_json saveTasks_def initial_def)
qed

lemma holds_list_storage: "holds_list t L \<Longrightarrow> storage_of t ''tasks'' = Some (JSON_stringify L)"
  by (cases t) simp_all

lemma act_holds_list:
  assumes "holds_list t L" and "distinct (map id_task L)"
    and "\<forall>now \<in> set (readings [a]). toString now \<notin> id_task ` set L"
  shows "\<exists>L'. holds_list (act valid_date a t) L' \<and> distinct (map id_task L')
    \<and> id_task ` set L' \<subseteq> id_task ` set L \<union> toString ` set (readings [a])"
proof (cases a)
  case Reload
  have "storage_of t ''tasks'' = Some (JSON_stringify L)"
    using assms(1) by (rule holds_list_storage)
  then have "holds_list (act valid_date a t) L"
    using Reload by (simp add: mount_stringify [of "storage_of t" L] initial_def)
  with assms(2) show ?thesis by blast
next
  case (Do ev)
  show ?thesis
  proof (cases t)
    case (Closed st f)
    with Do assms(1,2) show ?thesis by auto
  next
    case (Open p)
    with assms(1) have p: "localStorage p ''tasks'' = Some (JSON_stringify L)"
      "tasks (component p) = L"
      by simp_all
    show ?thesis
    proof (cases "dispatch valid_date ev p")
      case (Inl e)
      with Do Open p assms(2) have "holds_list (act valid_date a t) L" by simp
      with assms(2) show ?thesis by blast
    next
      case (Inr p')
      let ?L = "tasks (handle ev (component p))"
      from Inr have c: "component p' = handle ev (component p)"
        and s: "localStorage p' = (if sets_tasks ev (component p)
          then saveTasks (handle ev (component p)) (localStorage p) else localStorage p)"
        by (auto simp: dispatch_def split: if_splits)
      have "localStorage p' ''tasks'' = Some (JSON_stringify ?L)"
        using s p handle_keeps_tasks [of ev "component p"] by (simp add: saveTasks_def)
      with c Inr Do Open have h: "holds_list (act valid_date a t) ?L" by simp
      have d: "distinct (map id_task ?L)"
        using assms(2,3) Do p(2) by (intro handle_distinct) simp_all
      from handle_ids [of ev "component p"] Do p(2)
      have "id_task ` set ?L \<subseteq> id_task ` set L \<union> toString ` set (readings [a])"
        by simp
      with h d show ?thesis by blast
    qed
  qed
qed

lemma act_all_Cons: "act_all valid_date (a # as) t = act_all valid_date as (act valid_date a t)"
  by (simp add: act_all_def)

lemma act_all_holds_list:
  assumes "holds_list t L" and "distinct (map id_task L)"
    and "sorted_wrt (<) (readings as)"
    and "\<forall>now \<in> set (readings as). toString now \<notin> id_task ` set L"
  shows "\<exists>L'. holds_list (act_all valid_date as t) L' \<and> distinct (map id_task L')"
  using assms
proof (induction as arbitrary: t L)
  case Nil
  then show ?case by (auto simp: act_all_def)
next
  case (Cons a as)
  have r: "readings (a # as) = readings [a] @ readings as"
    by (rule readings_Cons)
  have "\<forall>now \<in> set (readings [a]). toString now \<notin> id_task ` set L"
    using Cons.prems(4) by (simp add: r)
  from act_holds_list [OF Cons.prems(1,2) this, of valid_date] obtain M where
    M: "holds_list (act valid_date a t) M" "distinct (map id_task M)"
    "id_task ` set M \<subseteq> id_task ` set L \<union> toString ` set (readings [a])"
    by blast
  have m: "sorted_wrt (<) (readings as)"
    using Cons.prems(3) by (simp add: r sorted_wrt_append)
  have f: "\<forall>now \<in> set (readings as). toString now \<notin> id_task ` set M"
  proof
    fix now assume n: "now \<in> set (readings as)"
    show "toString now \<notin> id_task ` set M"
    proof
      assume "toString now \<in> id_task ` set M"
      with M(3) have "toString now \<in> id_task ` set L
          \<or> toString now \<in> toString ` set (readings [a])"
        by auto
      then show False
      proof
        assume "toString now \<in> id_task ` set L"
        with Cons.prems(4) n show False by (simp add: r)
      next
        assume "toString now \<in> toString ` set (readings [a])"
        then obtain u where u: "u \<in> set (readings [a])" "toString now = toString u" by auto
        then have "now = u" by (simp add: toString_inj)
        moreover from Cons.prems(3) u(1) n have "u < now"
          by (simp add: r sorted_wrt_append)
        ultimately show False by simp
      qed
    qed
  qed
  from Cons.IH [OF M(1,2) m f] show ?case
    by (simp add: act_all_Cons)
qed

lemma toString_examples:
  "toString 1704067199999 = ''1704067199999''"
  "toString 1704067200000 = ''1704067200000''"
  "toString 1704067200001 = ''1704067200001''"
  "toString 1704067200002 = ''1704067200002''"
  "toString 1704067200003 = ''1704067200003''"
  by (simp_all add: toString_def digits.simps digit_char_def)


lemma synced_pageT: "synced pageT"
  by (simp add: synced_def pageT_def initial_def)

text \<open>
  C8. The claim is that from any state with distinct ids, every sequence of operations
  keeps the ids distinct when the clock advances between creations. It fails when the
  rendering of a clock reading is already an id of the starting list: the new task
  takes that id again. Here the page is opened on a stored list whose one task has
  the id \<open>1704067200000\<close>; two tasks are created, at strictly increasing clock
  readings, the second at that reading.
\<close>

theorem ids_collide_counterexample:
  "synced pageT
   \<and> distinct (map id_task (tasks (component pageT)))
   \<and> readings colliding = [1704067199999, 1704067200000]
   \<and> sorted_wrt (<) (readings colliding)
   \<and> (\<exists>p'. act_all date_only colliding (Open pageT) = Open p'
        \<and> map id_task (tasks (component p')) =
            [''1704067200000'', ''1704067199999'', ''1704067200000'']
        \<and> \<not> distinct (map id_task (tasks (component p'))))"
proof -
  define U where "U = \<lparr>id_task = ''1704067199999'', name = ''U'', priority = Medium,
    dueDate = ''2024-01-02''\<rparr>"
  define V where "V = \<lparr>id_task = ''1704067200000'', name = ''V'', priority = Medium,
    dueDate = ''2024-01-03''\<rparr>"
  have r: "renders date_only [taskT]" "renders date_only [taskT, U]"
    "renders date_only [taskT, U, V]"
    by (simp_all add: renders_iff taskT_def U_def V_def date_only_examples)
  have "\<exists>st. act_all date_only colliding (Open pageT) =
      Open \<lparr>localStorage = st, component = initial [taskT, U, V]\<rparr>"
    using r
    by (simp add: colliding_def act_all_def dispatch_def pageT_def initial_def
        addOrUpdateTask_def newTask_def resetForm_def Let_def toString_examples
        U_def [symmetric] V_def [symmetric])
  then obtain st where a: "act_all date_only colliding (Open pageT) =
      Open \<lparr>localStorage = st, component = initial [taskT, U, V]\<rparr>"
    by blast
  have i: "map id_task (tasks (initial [taskT, U, V])) =
      [''1704067200000'', ''1704067199999'', ''1704067200000'']"
    by (simp add: initial_def taskT_def U_def V_def)
  have b: "\<exists>p'. act_all date_only colliding (Open pageT) = Open p'
        \<and> map id_task (tasks (component p')) =
            [''1704067200000'', ''1704067199999'', ''1704067200000'']
        \<and> \<not> distinct (map id_task (tasks (component p')))"
    unfolding a using i by simp
  have c: "readings colliding = [1704067199999, 1704067200000]"
    by (simp add: colliding_def)
  have d: "distinct (map id_task (tasks (component pageT)))"
    by (simp add: pageT_def initial_def)
  from b c d synced_pageT show ?thesis
    by simp
qed

text \<open>
  C8, as the code has it: take a page whose ids are distinct and whose storage holds the
  serialisation of its list (as it does after the page is opened and after every
  event), and any sequence of events and reloads in which the clock readings of the
  submissions increase strictly and none of them renders to an id of the starting list.
  Whatever the engine takes for a valid date, at the end the storage holds the
  serialisation of a list whose ids are distinct, and when the page is open (no render
  has thrown since the last reload) this list is the list of the component.
\<close>

theorem ids_stay_distinct:
  assumes "synced p" and "distinct (map id_task (tasks (component p)))"
    and "sorted_wrt (<) (readings as)"
    and "\<forall>now \<in> set (readings as). toString now \<notin> id_task ` set (tasks (component p))"
  shows "\<exists>L. holds_list (act_all valid_date as (Open p)) L \<and> distinct (map id_task L)"
proof -
  from assms(1) have "holds_list (Open p) (tasks (component p))"
    by (simp add: synced_def)
  from act_all_holds_list [OF this assms(2,3,4)] show ?thesis .
qed

theorem ids_stay_distinct_witness:
  "(\<exists>L. holds_list (act_all date_only session (Open pageT)) L \<and> distinct (map id_task L))
   \<and> readings session = [1704067200001, 1704067200002, 1704067200003]
   \<and> act_all date_only (take 3 session) (Open pageT) =
       Closed (localStorage pageT) (Raised RangeError)
   \<and> (\<exists>p'. act_all date_only session (Open pageT) = Open p'
        \<and> tasks (component p') =
            [\<lparr>id_task = ''1704067200000'', name = ''T'', priority = High,
               dueDate = ''2024-01-01''\<rparr>])"
proof -
  define U where "U = \<lparr>id_task = ''1704067200002'', name = ''U'', priority = Medium,
    dueDate = ''2024-01-02''\<rparr>"
  define T' where "T' = \<lparr>id_task = ''1704067200000'', name = ''T'', priority = High,
    dueDate = ''2024-01-01''\<rparr>"
  define st where "st = (localStorage pageT)(''tasks'' \<mapsto> JSON_stringify [taskT, U])"
  define st' where "st' = st(''tasks'' \<mapsto> JSON_stringify [T', U])"
  have v: "renders date_only [taskT]" "renders date_only [taskT, U]"
    "renders date_only [T', U]" "renders date_only [T']"
    by (simp_all add: renders_iff taskT_def U_def T'_def date_only_examples)
  have n: "\<not> renders date_only [taskT, \<lparr>id_task = ''1704067200001'', name = ''S'',
      priority = Medium, dueDate = ''soon''\<rparr>]"
    by (simp add: renders_iff date_only_examples)
  have r: "readings session = [1704067200001, 1704067200002, 1704067200003]"
    by (simp add: session_def)
  have 1: "act_all date_only (take 3 session) (Open pageT) =
      Closed (localStorage pageT) (Raised RangeError)"
    using n v(1)
    by (simp add: session_def act_all_def dispatch_def pageT_def initial_def
        addOrUpdateTask_def newTask_def resetForm_def Let_def toString_examples)
  have "localStorage pageT ''tasks'' = Some (JSON_stringify [taskT])"
    by (simp add: pageT_def)
  with mount_stringify [of "localStorage pageT" "[taskT]" date_only] v(1)
  have 2: "act date_only Reload (Closed (localStorage pageT) (Raised RangeError)) = Open pageT"
    by (simp add: pageT_def)
  have 3: "act_all date_only (take 3 (drop 4 session)) (Open pageT) =
      Open \<lparr>localStorage = st, component = initial [taskT, U]\<rparr>"
    using v(1,2)
    by (simp add: session_def act_all_def dispatch_def pageT_def initial_def saveTasks_def
        addOrUpdateTask_def newTask_def resetForm_def Let_def toString_examples st_def U_def)
  have "st ''tasks'' = Some (JSON_stringify [taskT, U])"
    by (simp add: st_def)
  with mount_stringify [of st "[taskT, U]" date_only] v(2)
  have 4: "act date_only Reload (Open \<lparr>localStorage = st, component = initial [taskT, U]\<rparr>) =
      Open \<lparr>localStorage = st, component = initial [taskT, U]\<rparr>"
    by simp
  have 5: "\<exists>s. act_all date_only (drop 8 session)
      (Open \<lparr>localStorage = st, component = initial [taskT, U]\<rparr>) =
      Open \<lparr>localStorage = s, component = initial [T']\<rparr>"
    using v(2,3,4)
    by (simp add: session_def act_all_def dispatch_def initial_def saveTasks_def editTask_def
        deleteTask_def addOrUpdateTask_def newTask_def resetForm_def Let_def toString_examples
        taskT_def U_def T'_def)
  have s: "session = take 3 session @ [Reload] @ take 3 (drop 4 session) @ [Reload] @ drop 8 session"
    by (simp add: session_def)
  have "act_all date_only session (Open pageT) =
      act_all date_only (drop 8 session) (act date_only Reload
        (act_all date_only (take 3 (drop 4 session)) (act date_only Reload
          (act_all date_only (take 3 session) (Open pageT)))))"
    by (subst s) (simp only: act_all_def foldl_append foldl.simps)
  with 1 2 3 4 5 have e: "\<exists>p'. act_all date_only session (Open pageT) = Open p'
      \<and> tasks (component p') = [T']"
    by (auto simp: initial_def)
  have d: "distinct (map id_task (tasks (component pageT)))"
    by (simp add: pageT_def initial_def)
  have m: "sorted_wrt (<) (readings session)"
    by (simp add: r)
  have f: "\<forall>now \<in> set (readings session). toString now \<notin> id_task ` set (tasks (component pageT))"
    by (simp add: r pageT_def initial_def taskT_def toString_examples)
  from ids_stay_distinct [OF synced_pageT d m f, of date_only] r 1 e show ?thesis
    unfolding T'_def by blast
qed

end
